theory Spec2Isabelle
  imports Main "HOL-Library.AList"
begin

section \<open>Paths, file system events and the array helpers\<close>

text \<open>
  A shallow embedding of \<^verbatim>\<open>lib/watcher.js\<close>: the watcher object is a record, every
  method is a function from the watcher to the updated watcher, and the calls the
  watcher makes to its collaborators (the logger and the test-execution API) are
  appended to a list the record carries.

  Paths are JavaScript strings, compared with \<^verbatim>\<open>===\<close> and \<^verbatim>\<open>indexOf\<close>, that is by value.
  Counters are JavaScript numbers that start at 0 or 1 and only grow by 1; they are
  modelled as natural numbers (the loss of precision beyond \<open>2^53\<close> is out of reach).
\<close>

type_synonym path = string

text \<open>The event names chokidar passes to an \<^verbatim>\<open>'all'\<close> listener.\<close>

datatype fs_event = Add | AddDir | Change | Unlink | UnlinkDir

text \<open>
  The npm helpers the module requires, by their documented behaviour:
  \<^verbatim>\<open>arr-diff\<close> keeps the elements of its first argument that are absent from the second,
  \<^verbatim>\<open>array-uniq\<close> keeps the first occurrence of every element, \<^verbatim>\<open>array-union\<close> is the
  \<^verbatim>\<open>uniq\<close> of the concatenation and \<^verbatim>\<open>arr-flatten\<close> concatenates the nested arrays.
\<close>

definition arr_diff :: "'a list \<Rightarrow> 'a list \<Rightarrow> 'a list" where
  "arr_diff arr arrays = filter (\<lambda>ele. ele \<notin> set arrays) arr"

fun array_uniq :: "'a list \<Rightarrow> 'a list" where
  "array_uniq [] = []"
| "array_uniq (x # xs) = x # array_uniq (filter (\<lambda>y. y \<noteq> x) xs)"

definition array_union :: "'a list \<Rightarrow> 'a list \<Rightarrow> 'a list" where
  "array_union a b = array_uniq (a @ b)"

definition arr_flatten :: "'a list list \<Rightarrow> 'a list" where
  "arr_flatten arrs = concat arrs"

section \<open>A plain object used as a dictionary\<close>

text \<open>
  \<open>dirtyStates\<close> is a plain object \<^verbatim>\<open>{}\<close> whose property names are paths. Its own properties
  are kept as an association list in the order they were created.

  \<^verbatim>\<open>Object.keys\<close> lists first the names that are array indices (the decimal numerals of the
  numbers below \<open>2^32 - 1\<close>, without leading zeros), in ascending numeric order, and then
  the other names in the order of their creation.

  The assignment \<^verbatim>\<open>object[key] = value\<close> creates the property or overwrites it in place. For
  the key \<^verbatim>\<open>__proto__\<close> it runs the setter inherited from \<^verbatim>\<open>Object.prototype\<close> instead,
  which ignores a value that is a string (every event name is one): nothing is stored.
\<close>

definition is_digit :: "char \<Rightarrow> bool" where
  "is_digit c = (c \<in> set ''0123456789'')"

definition index_value :: "string \<Rightarrow> nat" where
  "index_value key = fold (\<lambda>c n. 10 * n + (of_char c - 48)) key 0"

definition is_array_index :: "string \<Rightarrow> bool" where
  "is_array_index key =
     (key \<noteq> [] \<and> list_all is_digit key
      \<and> (if hd key = CHR ''0'' then key = ''0'' else True)
      \<and> index_value key < 2 ^ 32 - 1)"

definition object_keys :: "(string \<times> 'v) list \<Rightarrow> string list" where
  "object_keys props =
     sort_key index_value (filter is_array_index (map fst props))
     @ filter (\<lambda>key. \<not> is_array_index key) (map fst props)"

definition assign_property :: "string \<Rightarrow> 'v \<Rightarrow> (string \<times> 'v) list \<Rightarrow> (string \<times> 'v) list" where
  "assign_property key v props =
     (if key = ''__proto__'' then props else AList.update key v props)"

section \<open>The watcher's data\<close>

text \<open>\<^verbatim>\<open>function TestDependency(file, sources)\<close> and its method \<^verbatim>\<open>contains\<close>.\<close>

record TestDependency =
  dep_file :: path
  dep_sources :: "path list"

definition contains :: "TestDependency \<Rightarrow> path \<Rightarrow> bool" where
  "contains dep source = (source \<in> set (dep_sources dep))"

text \<open>The objects \<^verbatim>\<open>{file, vector, count}\<close> of \<^verbatim>\<open>filesWithFailures\<close>.\<close>

record failure_state =
  st_file :: path
  st_vector :: nat
  st_count :: nat

text \<open>The fields of a run status the watcher reads or writes.\<close>

record run_status =
  failCount :: nat
  rejectionCount :: nat
  exceptionCount :: nat
  previousFailCount :: nat

text \<open>The calls the watcher makes to the logger and to the API.\<close>

datatype effect =
    LoggerClear
  | LoggerReset
  | LoggerSection
  | LoggerStart
  | LoggerFinish run_status
  | ApiRun "path list" bool

text \<open>
  What the constructor is given and what the collaborators answer: the test file
  patterns \<open>files\<close>, the matchers built by \<^verbatim>\<open>makeTestMatcher\<close> and \<^verbatim>\<open>makeSourceMatcher\<close>
  (both rest on the external \<^verbatim>\<open>multimatch\<close>), \<^verbatim>\<open>nodePath.relative('.', p)\<close>, and the
  answer of \<^verbatim>\<open>logger.clear()\<close>.
\<close>

record env =
  files :: "path list"
  isTest :: "path \<Rightarrow> bool"
  isSource :: "path \<Rightarrow> bool"
  relative :: "path \<Rightarrow> path"
  logger_clear :: bool

text \<open>
  The watcher. \<open>dirtyStates\<close> is the object used as a dictionary: the association list
  of its own properties. \<open>timer\<close> and \<open>again\<close> are the fields of the debouncer (its
  \<open>again\<close> starts undefined, which is falsy; its field \<^verbatim>\<open>repeat\<close> is never read).

  The last five fields are bookkeeping of the model: \<open>timeouts\<close> numbers the handles
  \<^verbatim>\<open>setTimeout\<close> returns, \<open>listeners\<close> holds, for every \<^verbatim>\<open>'test-run'\<close> event handled, the
  run status the listeners were put on and the \<open>currentVector\<close> their closures
  captured, \<open>pending\<close> holds the \<open>currentVector\<close> captured by the completion callback
  of every run that has not settled, \<open>calls\<close> lists the calls to the collaborators
  and \<open>decisions\<close> lists the dirty states each \<^verbatim>\<open>runAfterChanges\<close> started from.
\<close>

record watcher =
  clearLogOnNextRun :: bool
  runVector :: nat
  testDependencies :: "TestDependency list"
  filesWithExclusiveTests :: "path list"
  filesWithFailures :: "failure_state list"
  dirtyStates :: "(path \<times> fs_event) list"
  timer :: "nat option"
  again :: bool
  timeouts :: nat
  listeners :: "(nat \<times> nat) list"
  pending :: "nat list"
  calls :: "effect list"
  decisions :: "(path \<times> fs_event) list list"

section \<open>The trackers\<close>

text \<open>
  The callback of \<^verbatim>\<open>some\<close> in \<^verbatim>\<open>updateTestDependencies\<close> walks the entries in order,
  assigns the sources of the first entry of the file and stops there.
\<close>

fun assign_sources :: "path \<Rightarrow> path list \<Rightarrow> TestDependency list \<Rightarrow> TestDependency list" where
  "assign_sources file srcs [] = []"
| "assign_sources file srcs (dep # deps) =
     (if dep_file dep \<noteq> file then dep # assign_sources file srcs deps
      else dep\<lparr>dep_sources := srcs\<rparr> # deps)"

definition updateTestDependencies :: "path \<Rightarrow> path list \<Rightarrow> watcher \<Rightarrow> watcher" where
  "updateTestDependencies file srcs w =
     (if length srcs = 0
      then w\<lparr>testDependencies := filter (\<lambda>dep. dep_file dep \<noteq> file) (testDependencies w)\<rparr>
      else
        (let isUpdate = list_ex (\<lambda>dep. dep_file dep = file) (testDependencies w);
             w1 = w\<lparr>testDependencies := assign_sources file srcs (testDependencies w)\<rparr>
         in if \<not> isUpdate
            then w1\<lparr>testDependencies :=
                      testDependencies w1 @ [\<lparr>dep_file = file, dep_sources = srcs\<rparr>]\<rparr>
            else w1))"

text \<open>\<^verbatim>\<open>indexOf\<close> finds the first occurrence and \<^verbatim>\<open>splice(index, 1)\<close> removes it.\<close>

definition updateExclusivity :: "path \<Rightarrow> bool \<Rightarrow> watcher \<Rightarrow> watcher" where
  "updateExclusivity file hasExclusiveTests w =
     (if hasExclusiveTests \<and> file \<notin> set (filesWithExclusiveTests w)
      then w\<lparr>filesWithExclusiveTests := filesWithExclusiveTests w @ [file]\<rparr>
      else if \<not> hasExclusiveTests \<and> file \<in> set (filesWithExclusiveTests w)
      then w\<lparr>filesWithExclusiveTests := remove1 file (filesWithExclusiveTests w)\<rparr>
      else w)"

definition pruneFailures :: "path \<Rightarrow> watcher \<Rightarrow> watcher" where
  "pruneFailures file w =
     w\<lparr>filesWithFailures := filter (\<lambda>state. st_file state \<noteq> file) (filesWithFailures w)\<rparr>"

text \<open>The callback of \<^verbatim>\<open>some\<close> in \<^verbatim>\<open>countFailure\<close>: \<^verbatim>\<open>state.count++\<close> on the first record of the file.\<close>

fun increment_count :: "path \<Rightarrow> failure_state list \<Rightarrow> failure_state list" where
  "increment_count file [] = []"
| "increment_count file (state # states) =
     (if st_file state \<noteq> file then state # increment_count file states
      else state\<lparr>st_count := st_count state + 1\<rparr> # states)"

definition countFailure :: "path \<Rightarrow> nat \<Rightarrow> watcher \<Rightarrow> watcher" where
  "countFailure file vector w =
     (let isUpdate = list_ex (\<lambda>state. st_file state = file) (filesWithFailures w);
          w1 = w\<lparr>filesWithFailures := increment_count file (filesWithFailures w)\<rparr>
      in if \<not> isUpdate
         then w1\<lparr>filesWithFailures :=
                   filesWithFailures w1 @ [\<lparr>st_file = file, st_vector = vector, st_count = 1\<rparr>]\<rparr>
         else w1)"

text \<open>The \<^verbatim>\<open>forEach\<close> loop of \<^verbatim>\<open>sumPreviousFailures\<close>, with \<open>total\<close> as the accumulator.\<close>

definition sumPreviousFailures :: "nat \<Rightarrow> watcher \<Rightarrow> nat" where
  "sumPreviousFailures beforeVector w =
     fold (\<lambda>state total. if st_vector state < beforeVector then total + st_count state else total)
       (filesWithFailures w) 0"

definition cleanUnlinkedTests :: "path list \<Rightarrow> watcher \<Rightarrow> watcher" where
  "cleanUnlinkedTests unlinkedTests w =
     fold (\<lambda>testFile w'.
             pruneFailures testFile
               (updateExclusivity testFile False (updateTestDependencies testFile [] w')))
       unlinkedTests w"

section \<open>Starting a run\<close>

text \<open>
  \<^verbatim>\<open>this.run\<close>. \<open>specificFiles\<close> is \<open>None\<close> when the argument is omitted; every array,
  the empty one too, is truthy. \<^verbatim>\<open>logger.clear()\<close> is only called when
  \<open>clearLogOnNextRun\<close> holds. The promise \<^verbatim>\<open>api.run\<close> returns is recorded in \<open>pending\<close>
  by the \<open>currentVector\<close> its completion callback captured.
\<close>

definition run :: "env \<Rightarrow> path list option \<Rightarrow> watcher \<Rightarrow> watcher" where
  "run e specificFiles w =
     (let w1 =
            (if runVector w > 0
             then
               (let cleared = (clearLogOnNextRun w \<and> logger_clear e)
                in w\<lparr>clearLogOnNextRun := True,
                     calls := calls w
                       @ (if clearLogOnNextRun w then [LoggerClear] else [])
                       @ (if \<not> cleared then [LoggerReset, LoggerSection] else [])
                       @ [LoggerReset, LoggerStart]\<rparr>)
             else w);
          currentVector = runVector w1 + 1;
          w2 = w1\<lparr>runVector := currentVector\<rparr>;
          exclusiveFiles =
            (case specificFiles of
               None \<Rightarrow> []
             | Some sf \<Rightarrow> filter (\<lambda>file. file \<in> set (filesWithExclusiveTests w2)) sf);
          runOnlyExclusive =
            (case specificFiles of
               None \<Rightarrow> False
             | Some sf \<Rightarrow> length exclusiveFiles \<noteq> length (filesWithExclusiveTests w2));
          specificFiles' =
            (case specificFiles of
               None \<Rightarrow> None
             | Some sf \<Rightarrow>
                 if runOnlyExclusive
                 then Some (filesWithExclusiveTests w2 @ arr_diff sf exclusiveFiles)
                 else Some sf)
      in w2\<lparr>calls := calls w2
               @ [ApiRun (case specificFiles' of None \<Rightarrow> files e | Some sf \<Rightarrow> sf)
                    runOnlyExclusive],
            pending := pending w2 @ [currentVector]\<rparr>)"

text \<open>The callback \<^verbatim>\<open>this.run\<close> chains to the promise of \<^verbatim>\<open>api.run\<close>, for a fulfilled run.\<close>

definition run_fulfilled :: "nat \<Rightarrow> run_status \<Rightarrow> watcher \<Rightarrow> watcher" where
  "run_fulfilled currentVector runStatus w =
     (let runStatus' = runStatus\<lparr>previousFailCount := sumPreviousFailures currentVector w\<rparr>;
          badCounts = failCount runStatus' + rejectionCount runStatus' + exceptionCount runStatus'
      in w\<lparr>calls := calls w @ [LoggerFinish runStatus'],
           clearLogOnNextRun := (clearLogOnNextRun w \<and> badCounts = 0)\<rparr>)"

definition rerunAll :: "env \<Rightarrow> watcher \<Rightarrow> watcher" where
  "rerunAll e w = run e None (w\<lparr>dirtyStates := []\<rparr>)"

section \<open>The decision cycle\<close>

text \<open>
  \<^verbatim>\<open>runAfterChanges\<close>. \<^verbatim>\<open>dirtyStates[path]\<close>, for a path among the keys, reads the own
  property; the first
  assignment below notes the dirty states in \<open>decisions\<close>. \<open>tracedTests\<close> is the inner
  \<^verbatim>\<open>filter\<close> and \<^verbatim>\<open>map\<close> of \<open>testsBySource\<close>: the files of the entries that contain the path.
\<close>

definition tracedTests :: "TestDependency list \<Rightarrow> path \<Rightarrow> path list" where
  "tracedTests deps p = map dep_file (filter (\<lambda>dep. contains dep p) deps)"

definition runAfterChanges :: "env \<Rightarrow> watcher \<Rightarrow> watcher" where
  "runAfterChanges e w =
     (let dirty = dirtyStates w;
          w1 = w\<lparr>dirtyStates := [], decisions := decisions w @ [dirty]\<rparr>;
          dirtyPaths = object_keys dirty;
          dirtyTests = filter (isTest e) dirtyPaths;
          dirtySources = arr_diff dirtyPaths dirtyTests;
          addedOrChangedTests = filter (\<lambda>p. map_of dirty p \<noteq> Some Unlink) dirtyTests;
          unlinkedTests = arr_diff dirtyTests addedOrChangedTests;
          w2 = cleanUnlinkedTests unlinkedTests w1
      in if length unlinkedTests = length dirtyPaths then w2
         else if length dirtySources = 0 then run e (Some addedOrChangedTests) w2
         else
           (let testsBySource =
                  filter (\<lambda>tests. length tests > 0)
                    (map (tracedTests (testDependencies w2)) dirtySources)
            in if length testsBySource \<noteq> length dirtySources then run e None w2
               else run e
                      (Some (array_union addedOrChangedTests
                               (array_uniq (arr_flatten testsBySource))))
                      w2))"

section \<open>The debouncer\<close>

text \<open>
  \<^verbatim>\<open>setTimeout\<close> hands out a fresh handle, numbered by \<open>timeouts\<close>. The function given to
  \<^verbatim>\<open>setTimeout\<close> waits for \<^verbatim>\<open>watcher.busy\<close> and then runs the callback \<open>timerCallback\<close>,
  which compares the handle it closed over with the debouncer's.
\<close>

definition debounce :: "watcher \<Rightarrow> watcher" where
  "debounce w =
     (if timer w \<noteq> None then w\<lparr>again := True\<rparr>
      else w\<lparr>timer := Some (timeouts w), timeouts := Suc (timeouts w)\<rparr>)"

definition timerCallback :: "env \<Rightarrow> nat \<Rightarrow> watcher \<Rightarrow> watcher" where
  "timerCallback e t w =
     (if timer w \<noteq> Some t then w
      else if again w then debounce (w\<lparr>timer := None, again := False\<rparr>)
      else (runAfterChanges e w)\<lparr>timer := None, again := False\<rparr>)"

definition cancel :: "watcher \<Rightarrow> watcher" where
  "cancel w = (if timer w \<noteq> None then w\<lparr>timer := None, again := False\<rparr> else w)"

section \<open>The event handlers\<close>

text \<open>The listener \<^verbatim>\<open>watchFiles\<close> puts on chokidar's \<^verbatim>\<open>'all'\<close>.\<close>

definition on_all :: "fs_event \<Rightarrow> path \<Rightarrow> watcher \<Rightarrow> watcher" where
  "on_all event p w =
     (if event = Add \<or> event = Change \<or> event = Unlink
      then debounce (w\<lparr>dirtyStates := assign_property p event (dirtyStates w)\<rparr>)
      else w)"

text \<open>
  The two listeners on the API's \<^verbatim>\<open>'test-run'\<close>: the one of \<^verbatim>\<open>trackTestDependencies\<close> puts
  a \<^verbatim>\<open>'dependencies'\<close> listener on the run status; the one of \<^verbatim>\<open>trackFailures\<close> prunes the
  failures of the files of the run, reads \<open>runVector\<close> and puts the \<^verbatim>\<open>'error'\<close> and \<^verbatim>\<open>'test'\<close>
  listeners on the run status.
\<close>

definition on_test_run :: "env \<Rightarrow> nat \<Rightarrow> path list \<Rightarrow> watcher \<Rightarrow> watcher" where
  "on_test_run e runStatus fs w =
     (let w1 = fold (\<lambda>file. pruneFailures (relative e file)) fs w;
          currentVector = runVector w1
      in w1\<lparr>listeners := listeners w1 @ [(runStatus, currentVector)]\<rparr>)"

definition listeners_on :: "nat \<Rightarrow> watcher \<Rightarrow> (nat \<times> nat) list" where
  "listeners_on runStatus w = filter (\<lambda>l. fst l = runStatus) (listeners w)"

definition on_dependencies :: "env \<Rightarrow> nat \<Rightarrow> path \<Rightarrow> path list \<Rightarrow> watcher \<Rightarrow> watcher" where
  "on_dependencies e runStatus file dependencies w =
     (let sourceDeps = filter (isSource e) (map (relative e) dependencies)
      in fold (\<lambda>l. updateTestDependencies file sourceDeps) (listeners_on runStatus w) w)"

definition on_stats :: "path \<Rightarrow> bool \<Rightarrow> watcher \<Rightarrow> watcher" where
  "on_stats file hasExclusive w = updateExclusivity file hasExclusive w"

definition on_error :: "nat \<Rightarrow> path \<Rightarrow> watcher \<Rightarrow> watcher" where
  "on_error runStatus file w =
     fold (\<lambda>l. countFailure file (snd l)) (listeners_on runStatus w) w"

definition on_test :: "nat \<Rightarrow> path \<Rightarrow> bool \<Rightarrow> watcher \<Rightarrow> watcher" where
  "on_test runStatus file has_error w = (if has_error then on_error runStatus file w else w)"

text \<open>
  What can happen to a watcher: a file system event, the callback of a timeout, the
  events of the API and of a run status (named by a number), the fulfilment of a run,
  and the two halves of a rerun asked for on stdin (a line that, trimmed and in lower
  case, is \<^verbatim>\<open>r\<close> or \<^verbatim>\<open>rs\<close>, and the continuation once \<^verbatim>\<open>busy\<close> has settled). Other lines do
  nothing. A rejected run is rethrown by \<^verbatim>\<open>rethrowAsync\<close> outside any handler and is no
  input here. The inputs may come in any order: a timeout's callback for a handle that
  is no longer the debouncer's does nothing, as in the source.
\<close>

datatype input =
    FsEvent fs_event path
  | TimerCallback nat
  | TestRun nat "path list"
  | Dependencies nat path "path list"
  | Stats path bool
  | ErrorEvent nat path
  | TestEvent nat path bool
  | RunFulfilled nat run_status
  | RerunLine
  | RerunContinuation

fun step :: "env \<Rightarrow> input \<Rightarrow> watcher \<Rightarrow> watcher" where
  "step e (FsEvent event p) w = on_all event p w"
| "step e (TimerCallback t) w = timerCallback e t w"
| "step e (TestRun rs fs) w = on_test_run e rs fs w"
| "step e (Dependencies rs file deps) w = on_dependencies e rs file deps w"
| "step e (Stats file hasExclusive) w = on_stats file hasExclusive w"
| "step e (ErrorEvent rs file) w = on_error rs file w"
| "step e (TestEvent rs file has_error) w = on_test rs file has_error w"
| "step e (RunFulfilled v runStatus) w =
     (if v \<in> set (pending w) then run_fulfilled v runStatus (w\<lparr>pending := remove1 v (pending w)\<rparr>)
      else w)"
| "step e RerunLine w = cancel w"
| "step e RerunContinuation w = rerunAll e ((cancel w)\<lparr>clearLogOnNextRun := False\<rparr>)"

definition exec :: "env \<Rightarrow> input list \<Rightarrow> watcher \<Rightarrow> watcher" where
  "exec e inputs w = fold (step e) inputs w"

text \<open>The constructor: the fields as it initialises them, then \<^verbatim>\<open>this.rerunAll()\<close>.\<close>

definition blank :: watcher where
  "blank =
     \<lparr>clearLogOnNextRun = True, runVector = 0, testDependencies = [],
      filesWithExclusiveTests = [], filesWithFailures = [], dirtyStates = [],
      timer = None, again = False, timeouts = 0, listeners = [], pending = [],
      calls = [], decisions = []\<rparr>"

definition Watcher :: "env \<Rightarrow> watcher" where
  "Watcher e = rerunAll e blank"

text \<open>
  The specification's \<open>sumFailuresBefore\<close>, in its words: the sum of the counts over all
  records whose generation is below the argument.
\<close>

definition sumFailuresBefore :: "nat \<Rightarrow> failure_state list \<Rightarrow> nat" where
  "sumFailuresBefore generation records =
     sum_list (map st_count (filter (\<lambda>record. st_vector record < generation) records))"

text \<open>
  The local variables of \<^verbatim>\<open>runAfterChanges\<close>, as functions of the watcher it is called on
  (\<open>runAfterChanges_eq\<close> below): the dirty paths and their partition, the watcher after
  \<^verbatim>\<open>cleanUnlinkedTests\<close>, the non-empty lists of traced tests, and the list handed to
  \<^verbatim>\<open>this.run\<close> in the last branch.
\<close>

definition dirtyPaths :: "watcher \<Rightarrow> path list" where
  "dirtyPaths w = object_keys (dirtyStates w)"

definition dirtyTests :: "env \<Rightarrow> watcher \<Rightarrow> path list" where
  "dirtyTests e w = filter (isTest e) (dirtyPaths w)"

definition dirtySources :: "env \<Rightarrow> watcher \<Rightarrow> path list" where
  "dirtySources e w = arr_diff (dirtyPaths w) (dirtyTests e w)"

definition addedOrChangedTests :: "env \<Rightarrow> watcher \<Rightarrow> path list" where
  "addedOrChangedTests e w = filter (\<lambda>p. map_of (dirtyStates w) p \<noteq> Some Unlink) (dirtyTests e w)"

definition unlinkedTests :: "env \<Rightarrow> watcher \<Rightarrow> path list" where
  "unlinkedTests e w = arr_diff (dirtyTests e w) (addedOrChangedTests e w)"

definition cleaned :: "env \<Rightarrow> watcher \<Rightarrow> watcher" where
  "cleaned e w =
     cleanUnlinkedTests (unlinkedTests e w) (w\<lparr>dirtyStates := [], decisions := decisions w @ [dirtyStates w]\<rparr>)"

definition testsBySource :: "env \<Rightarrow> watcher \<Rightarrow> path list list" where
  "testsBySource e w =
     filter (\<lambda>tests. length tests > 0)
       (map (tracedTests (testDependencies (cleaned e w))) (dirtySources e w))"

definition affectedTests :: "env \<Rightarrow> watcher \<Rightarrow> path list" where
  "affectedTests e w =
     array_union (addedOrChangedTests e w) (array_uniq (arr_flatten (testsBySource e w)))"

section \<open>Properties of the watcher's state\<close>

text \<open>
  The arrays that stand for sets hold no element twice: the files with exclusive tests,
  the test files of the dependency entries and the property names of the dirty states.
\<close>

definition sets_distinct :: "watcher \<Rightarrow> bool" where
  "sets_distinct w \<longleftrightarrow>
     distinct (filesWithExclusiveTests w) \<and> distinct (map dep_file (testDependencies w))
     \<and> distinct (map fst (dirtyStates w))"

text \<open>Every recorded dependency of a test is a path the source matcher accepts.\<close>

definition dependencies_are_sources :: "env \<Rightarrow> watcher \<Rightarrow> bool" where
  "dependencies_are_sources e w \<longleftrightarrow>
     (\<forall>dep\<in>set (testDependencies w). \<forall>s\<in>set (dep_sources dep). isSource e s)"

text \<open>
  No failure record, and no listener waiting to count failures, carries a run vector
  above the watcher's.
\<close>

definition generations_bounded :: "watcher \<Rightarrow> bool" where
  "generations_bounded w \<longleftrightarrow>
     (\<forall>state\<in>set (filesWithFailures w). st_vector state \<le> runVector w)
     \<and> (\<forall>l\<in>set (listeners w). snd l \<le> runVector w)"

text \<open>
  A burst of file system events as inputs, the assignments \<^verbatim>\<open>dirtyStates[path] = event\<close>
  they make, and the events the \<^verbatim>\<open>'all'\<close> listener acts on.
\<close>

definition fs_inputs :: "(fs_event \<times> path) list \<Rightarrow> input list" where
  "fs_inputs evs = map (\<lambda>(event, p). FsEvent event p) evs"

definition record_events :: "(fs_event \<times> path) list \<Rightarrow> (path \<times> fs_event) list \<Rightarrow> (path \<times> fs_event) list" where
  "record_events evs dirty = fold (\<lambda>(event, p). assign_property p event) evs dirty"

definition watched :: "fs_event \<Rightarrow> bool" where
  "watched event \<longleftrightarrow> event = Add \<or> event = Change \<or> event = Unlink"

section \<open>Example watchers\<close>

text \<open>
  A project with the test files \<^verbatim>\<open>test/a.js\<close> and \<^verbatim>\<open>test/b.js\<close> and the source \<^verbatim>\<open>lib/util.js\<close>.
  The first run reports that \<^verbatim>\<open>test/a.js\<close> depends on \<^verbatim>\<open>lib/util.js\<close>; in the second
  example \<^verbatim>\<open>test/a.js\<close> also has an exclusive test and a failing test.
\<close>

definition example_env :: env where
  "example_env =
     \<lparr>files = [''test/*.js''],
      isTest = (\<lambda>p. p = ''test/a.js'' \<or> p = ''test/b.js''),
      isSource = (\<lambda>p. p = ''lib/util.js''),
      relative = (\<lambda>p. p),
      logger_clear = True\<rparr>"

definition after_first_run :: watcher where
  "after_first_run =
     exec example_env
       [TestRun 0 [''test/a.js'', ''test/b.js''],
        Dependencies 0 ''test/a.js'' [''lib/util.js'', ''node_modules/x.js''],
        RunFulfilled 1 \<lparr>failCount = 0, rejectionCount = 0, exceptionCount = 0,
                         previousFailCount = 0\<rparr>]
       (Watcher example_env)"

definition after_failed_run :: watcher where
  "after_failed_run =
     exec example_env
       [TestRun 0 [''test/a.js'', ''test/b.js''],
        Dependencies 0 ''test/a.js'' [''lib/util.js''],
        Stats ''test/a.js'' True,
        TestEvent 0 ''test/a.js'' True,
        RunFulfilled 1 \<lparr>failCount = 1, rejectionCount = 0, exceptionCount = 0,
                         previousFailCount = 0\<rparr>]
       (Watcher example_env)"

text \<open>The same first run, in which \<^verbatim>\<open>test/b.js\<close> reports an exclusive test.\<close>

definition after_exclusive_run :: watcher where
  "after_exclusive_run =
     exec example_env
       [TestRun 0 [''test/a.js'', ''test/b.js''],
        Dependencies 0 ''test/a.js'' [''lib/util.js''],
        Stats ''test/b.js'' True,
        RunFulfilled 1 \<lparr>failCount = 0, rejectionCount = 0, exceptionCount = 0,
                         previousFailCount = 0\<rparr>]
       (Watcher example_env)"

section \<open>The dependency tracker\<close>

lemma assign_sources_file: "map dep_file (assign_sources file srcs deps) = map dep_file deps"
  by (induction deps) auto

lemma assign_sources_twice:
  "assign_sources file srcs (assign_sources file srcs deps) = assign_sources file srcs deps"
  by (induction deps) auto

lemma list_ex_file:
  "list_ex (\<lambda>dep. dep_file dep = file) deps \<longleftrightarrow> file \<in> set (map dep_file deps)"
  by (induction deps) auto

lemma assign_sources_absent:
  "file \<notin> set (map dep_file deps) \<Longrightarrow> assign_sources file srcs deps = deps"
  by (induction deps) auto

lemma assign_sources_append:
  "file \<notin> set (map dep_file deps) \<Longrightarrow>
   assign_sources file srcs (deps @ rest) = deps @ assign_sources file srcs rest"
  by (induction deps) auto

lemma assign_sources_find:
  "file \<in> set (map dep_file deps) \<Longrightarrow>
   find (\<lambda>dep. dep_file dep = file) (assign_sources file srcs deps)
     = Some \<lparr>dep_file = file, dep_sources = srcs\<rparr>"
  by (induction deps) auto

lemma find_append_absent:
  "T \<notin> set (map dep_file deps) \<Longrightarrow>
   find (\<lambda>dep. dep_file dep = T) (deps @ rest) = find (\<lambda>dep. dep_file dep = T) rest"
  by (induction deps) auto

lemma updateTestDependencies_twice:
  "updateTestDependencies T srcs (updateTestDependencies T srcs w) = updateTestDependencies T srcs w"
  by (cases "T \<in> set (map dep_file (testDependencies w))")
    (simp_all add: updateTestDependencies_def Let_def list_ex_file assign_sources_file
      assign_sources_twice assign_sources_absent assign_sources_append del: set_map)

lemma updateTestDependencies_distinct:
  "distinct (map dep_file (testDependencies w)) \<Longrightarrow>
   distinct (map dep_file (testDependencies (updateTestDependencies T srcs w)))"
  by (auto simp add: updateTestDependencies_def Let_def list_ex_file assign_sources_file
      distinct_map_filter)

lemma updateTestDependencies_empty:
  "T \<notin> set (map dep_file (testDependencies (updateTestDependencies T [] w)))"
  by (auto simp add: updateTestDependencies_def)

lemma updateTestDependencies_find:
  "srcs \<noteq> [] \<Longrightarrow>
   find (\<lambda>dep. dep_file dep = T) (testDependencies (updateTestDependencies T srcs w))
     = Some \<lparr>dep_file = T, dep_sources = srcs\<rparr>"
  by (cases "T \<in> set (map dep_file (testDependencies w))")
    (simp_all add: updateTestDependencies_def Let_def list_ex_file assign_sources_find
      assign_sources_absent find_append_absent del: set_map)

text \<open>
  C8. Reporting the same sources for a test file a second time changes nothing. After a
  report of a non-empty list of sources the first entry of the file holds exactly these
  sources; a collection with at most one entry per test file keeps that property; and
  after a report of no sources the file has no entry.
\<close>

theorem updateTestDependencies_idempotent:
  "updateTestDependencies T srcs (updateTestDependencies T srcs w) = updateTestDependencies T srcs w
   \<and> (srcs \<noteq> [] \<longrightarrow>
        find (\<lambda>dep. dep_file dep = T) (testDependencies (updateTestDependencies T srcs w))
          = Some \<lparr>dep_file = T, dep_sources = srcs\<rparr>)
   \<and> (distinct (map dep_file (testDependencies w)) \<longrightarrow>
        distinct (map dep_file (testDependencies (updateTestDependencies T srcs w))))
   \<and> T \<notin> set (map dep_file (testDependencies (updateTestDependencies T [] w)))"
  using updateTestDependencies_twice updateTestDependencies_find updateTestDependencies_distinct
    updateTestDependencies_empty
  by blast

theorem updateTestDependencies_idempotent_witness:
  "updateTestDependencies ''test/a.js'' [''lib/util.js'']
      (updateTestDependencies ''test/a.js'' [''lib/util.js'']
         (blank\<lparr>testDependencies := [\<lparr>dep_file = ''test/a.js'', dep_sources = [''lib/old.js'']\<rparr>]\<rparr>))
    = updateTestDependencies ''test/a.js'' [''lib/util.js'']
         (blank\<lparr>testDependencies := [\<lparr>dep_file = ''test/a.js'', dep_sources = [''lib/old.js'']\<rparr>]\<rparr>)
   \<and> testDependencies (updateTestDependencies ''test/a.js'' [''lib/util.js'']
         (blank\<lparr>testDependencies := [\<lparr>dep_file = ''test/a.js'', dep_sources = [''lib/old.js'']\<rparr>]\<rparr>))
       = [\<lparr>dep_file = ''test/a.js'', dep_sources = [''lib/util.js'']\<rparr>]
   \<and> distinct (map dep_file (testDependencies (updateTestDependencies ''test/a.js'' [''lib/util.js'']
         (blank\<lparr>testDependencies := [\<lparr>dep_file = ''test/a.js'', dep_sources = [''lib/old.js'']\<rparr>]\<rparr>))))
   \<and> testDependencies (updateTestDependencies ''test/a.js'' []
         (blank\<lparr>testDependencies := [\<lparr>dep_file = ''test/a.js'', dep_sources = [''lib/old.js'']\<rparr>]\<rparr>)) = []"
  using updateTestDependencies_idempotent [of "''test/a.js''" "[''lib/util.js'']"
      "blank\<lparr>testDependencies := [\<lparr>dep_file = ''test/a.js'', dep_sources = [''lib/old.js'']\<rparr>]\<rparr>"]
  by (simp add: updateTestDependencies_def blank_def)

section \<open>The failure tracker\<close>

lemma increment_count_file: "map st_file (increment_count file states) = map st_file states"
  by (induction states) auto

lemma increment_count_vector:
  "map st_vector (increment_count file states) = map st_vector states"
  by (induction states) auto

lemma list_ex_st_file:
  "list_ex (\<lambda>state. st_file state = file) states
     \<longleftrightarrow> find (\<lambda>state. st_file state = file) states \<noteq> None"
  by (induction states) auto

lemma increment_count_find:
  "find (\<lambda>state. st_file state = file) states = Some s \<Longrightarrow>
   find (\<lambda>state. st_file state = file) (increment_count file states)
     = Some (s\<lparr>st_count := st_count s + 1\<rparr>)"
  by (induction states) auto

lemma fold_total:
  "fold (\<lambda>state total. if st_vector state < g then total + st_count state else total) states a
     = a + sumFailuresBefore g states"
  by (induction states arbitrary: a) (auto simp: sumFailuresBefore_def)

lemma sumPreviousFailures_sum:
  "sumPreviousFailures g w = sumFailuresBefore g (filesWithFailures w)"
  by (simp add: sumPreviousFailures_def fold_total)

lemma increment_count_sum:
  "find (\<lambda>state. st_file state = file) states = Some s \<Longrightarrow>
   sumFailuresBefore g (increment_count file states)
     = sumFailuresBefore g states + (if st_vector s < g then 1 else 0)"
  by (induction states) (auto simp: sumFailuresBefore_def)

text \<open>
  C10. When the file already has a record \<open>s\<close> (the first one of the file), \<open>countFailure\<close>
  adds one to its count and leaves every generation as it was, whatever the generation
  \<open>vector\<close> it is called with; \<open>sumPreviousFailures\<close> then attributes the new failure to
  the generation of \<open>s\<close>.
\<close>

theorem countFailure_keeps_generation:
  "find (\<lambda>state. st_file state = file) (filesWithFailures w) = Some s \<Longrightarrow>
   find (\<lambda>state. st_file state = file) (filesWithFailures (countFailure file vector w))
       = Some (s\<lparr>st_count := st_count s + 1\<rparr>)
   \<and> map st_vector (filesWithFailures (countFailure file vector w))
       = map st_vector (filesWithFailures w)
   \<and> map st_file (filesWithFailures (countFailure file vector w))
       = map st_file (filesWithFailures w)
   \<and> sumPreviousFailures g (countFailure file vector w)
       = sumPreviousFailures g w + (if st_vector s < g then 1 else 0)"
  by (simp add: countFailure_def Let_def list_ex_st_file increment_count_find
      increment_count_vector increment_count_file sumPreviousFailures_sum increment_count_sum)

theorem countFailure_keeps_generation_witness:
  "find (\<lambda>state. st_file state = ''x.js'')
      (filesWithFailures (countFailure ''x.js'' 5
         (blank\<lparr>runVector := 5,
            filesWithFailures := [\<lparr>st_file = ''x.js'', st_vector = 1, st_count = 1\<rparr>]\<rparr>)))
     = Some \<lparr>st_file = ''x.js'', st_vector = 1, st_count = 2\<rparr>
   \<and> sumPreviousFailures 2 (countFailure ''x.js'' 5
         (blank\<lparr>runVector := 5,
            filesWithFailures := [\<lparr>st_file = ''x.js'', st_vector = 1, st_count = 1\<rparr>]\<rparr>)) = 2"
  using countFailure_keeps_generation [of "''x.js''"
      "blank\<lparr>runVector := 5,
         filesWithFailures := [\<lparr>st_file = ''x.js'', st_vector = 1, st_count = 1\<rparr>]\<rparr>"
      "\<lparr>st_file = ''x.js'', st_vector = 1, st_count = 1\<rparr>" 5 2]
  by (simp add: blank_def sumPreviousFailures_def)

section \<open>Starting a run\<close>

lemma run_frame [simp]:
  "runVector (run e sf w) = Suc (runVector w)"
  "testDependencies (run e sf w) = testDependencies w"
  "filesWithExclusiveTests (run e sf w) = filesWithExclusiveTests w"
  "filesWithFailures (run e sf w) = filesWithFailures w"
  "dirtyStates (run e sf w) = dirtyStates w"
  "timer (run e sf w) = timer w"
  "again (run e sf w) = again w"
  "timeouts (run e sf w) = timeouts w"
  "listeners (run e sf w) = listeners w"
  "decisions (run e sf w) = decisions w"
  "pending (run e sf w) = pending w @ [Suc (runVector w)]"
  by (simp_all add: run_def Let_def)

lemma run_last_call_None: "last (calls (run e None w)) = ApiRun (files e) False"
  by (simp add: run_def Let_def)

lemma run_last_call_Some:
  "last (calls (run e (Some sf) w)) =
     (if length (filter (\<lambda>file. file \<in> set (filesWithExclusiveTests w)) sf)
           \<noteq> length (filesWithExclusiveTests w)
      then ApiRun (filesWithExclusiveTests w
                   @ arr_diff sf (filter (\<lambda>file. file \<in> set (filesWithExclusiveTests w)) sf)) True
      else ApiRun sf False)"
  by (simp add: run_def Let_def)

lemma covers_iff:
  assumes "distinct sf" "distinct excl"
  shows "length (filter (\<lambda>file. file \<in> set excl) sf) = length excl \<longleftrightarrow> set excl \<subseteq> set sf"
proof -
  have d: "distinct (filter (\<lambda>file. file \<in> set excl) sf)" using assms by simp
  have s: "set (filter (\<lambda>file. file \<in> set excl) sf) = set sf \<inter> set excl" by auto
  have "length (filter (\<lambda>file. file \<in> set excl) sf) = card (set sf \<inter> set excl)"
    using distinct_card [OF d] s by simp
  moreover have "length excl = card (set excl)" using assms distinct_card by metis
  ultimately show ?thesis
    by (metis List.finite_set card_subset_eq inf.absorb_iff2 inf_le2)
qed

lemma arr_diff_filter:
  "arr_diff sf (filter (\<lambda>file. file \<in> set excl) sf) = filter (\<lambda>file. file \<notin> set excl) sf"
  by (auto simp: arr_diff_def intro: filter_cong)

lemma run_last_call_sets:
  assumes "distinct sf" and "distinct (filesWithExclusiveTests w)"
  shows "last (calls (run e (Some sf) w)) =
           (if set (filesWithExclusiveTests w) \<subseteq> set sf then ApiRun sf False
            else ApiRun (filesWithExclusiveTests w
                         @ filter (\<lambda>f. f \<notin> set (filesWithExclusiveTests w)) sf) True)"
  using covers_iff [OF assms] by (simp add: run_last_call_Some arr_diff_filter)

text \<open>
  C1. The requested list and the list of files with exclusive tests both stand for sets
  (no file twice). If the requested files that have exclusive tests are a strict subset
  of all files with exclusive tests, the API is called with all files with exclusive
  tests followed by the requested files that have none, and with \<open>runOnlyExclusive\<close>;
  if the requested list covers the files with exclusive tests, the API is called with
  the list as requested and without \<open>runOnlyExclusive\<close>. With exclusive files \<open>A\<close> and
  \<open>B\<close>, a request for \<open>A\<close> runs \<open>A\<close> and \<open>B\<close>, and a request for \<open>A\<close> and \<open>B\<close> is not expanded.
\<close>

theorem run_exclusivity_override:
  assumes "distinct specificFiles" and "distinct (filesWithExclusiveTests w)"
  shows "(set specificFiles \<inter> set (filesWithExclusiveTests w) \<subset> set (filesWithExclusiveTests w) \<longrightarrow>
            last (calls (run e (Some specificFiles) w))
              = ApiRun (filesWithExclusiveTests w
                        @ filter (\<lambda>file. file \<notin> set (filesWithExclusiveTests w)) specificFiles) True)
       \<and> (set (filesWithExclusiveTests w) \<subseteq> set specificFiles \<longrightarrow>
            last (calls (run e (Some specificFiles) w)) = ApiRun specificFiles False)
       \<and> (A \<noteq> B \<and> filesWithExclusiveTests w = [A, B] \<longrightarrow>
            last (calls (run e (Some [A]) w)) = ApiRun [A, B] True
          \<and> last (calls (run e (Some [A, B]) w)) = ApiRun [A, B] False)"
proof -
  let ?excl = "filesWithExclusiveTests w"
  have strict: "set specificFiles \<inter> set ?excl \<subset> set ?excl \<longleftrightarrow> \<not> set ?excl \<subseteq> set specificFiles"
    by auto
  have len: "length (filter (\<lambda>file. file \<in> set ?excl) specificFiles) = length ?excl
               \<longleftrightarrow> set ?excl \<subseteq> set specificFiles"
    using covers_iff [OF assms] .
  have general: "last (calls (run e (Some specificFiles) w)) =
      (if set ?excl \<subseteq> set specificFiles then ApiRun specificFiles False
       else ApiRun (?excl @ filter (\<lambda>file. file \<notin> set ?excl) specificFiles) True)"
    by (simp add: run_last_call_Some arr_diff_filter len)
  have example: "A \<noteq> B \<and> ?excl = [A, B] \<longrightarrow>
      last (calls (run e (Some [A]) w)) = ApiRun [A, B] True
      \<and> last (calls (run e (Some [A, B]) w)) = ApiRun [A, B] False"
    by (simp add: run_last_call_Some arr_diff_def)
  show ?thesis using strict general example by simp
qed

theorem run_exclusivity_override_witness:
  "last (calls (run example_env (Some [''a.js'', ''c.js''])
                  (blank\<lparr>filesWithExclusiveTests := [''a.js'', ''b.js'']\<rparr>)))
     = ApiRun [''a.js'', ''b.js'', ''c.js''] True
   \<and> last (calls (run example_env (Some [''a.js'', ''c.js''])
                  (blank\<lparr>filesWithExclusiveTests := [''a.js'']\<rparr>)))
     = ApiRun [''a.js'', ''c.js''] False
   \<and> last (calls (run example_env (Some [''a.js''])
                  (blank\<lparr>filesWithExclusiveTests := [''a.js'', ''b.js'']\<rparr>)))
     = ApiRun [''a.js'', ''b.js''] True
   \<and> last (calls (run example_env (Some [''a.js'', ''b.js''])
                  (blank\<lparr>filesWithExclusiveTests := [''a.js'', ''b.js'']\<rparr>)))
     = ApiRun [''a.js'', ''b.js''] False"
  using run_exclusivity_override [of "[''a.js'', ''c.js'']"
          "blank\<lparr>filesWithExclusiveTests := [''a.js'', ''b.js'']\<rparr>" example_env "''a.js''" "''b.js''"]
        run_exclusivity_override [of "[''a.js'', ''c.js'']"
          "blank\<lparr>filesWithExclusiveTests := [''a.js'']\<rparr>" example_env "''a.js''" "''b.js''"]
  by (simp add: blank_def psubset_eq)

section \<open>The decision cycle\<close>

lemma set_object_keys [simp]: "set (object_keys props) = fst ` set props"
  by (auto simp add: object_keys_def)

lemma distinct_object_keys: "distinct (map fst props) \<Longrightarrow> distinct (object_keys props)"
  by (auto simp add: object_keys_def)

lemma length_object_keys [simp]: "length (object_keys props) = length props"
  using sum_length_filter_compl [of is_array_index "map fst props"]
  by (simp add: object_keys_def)

lemma object_keys_single [simp]: "object_keys [(key, v)] = [key]"
  by (simp add: object_keys_def)

lemma object_keys_Nil [simp]: "object_keys [] = []"
  by (simp add: object_keys_def)

lemma object_keys_names:
  "list_all (\<lambda>key. \<not> is_array_index key) (map fst props) \<Longrightarrow> object_keys props = map fst props"
  by (simp add: object_keys_def list_all_iff filter_empty_conv filter_id_conv)

lemma object_keys_example:
  "object_keys [(''lib/b.js'', Change), (''10'', Add), (''lib/a.js'', Add), (''7'', Unlink), (''07'', Add)]
     = [''7'', ''10'', ''lib/b.js'', ''lib/a.js'', ''07'']"
  by (simp add: object_keys_def is_array_index_def is_digit_def index_value_def)

lemma assign_property_keys:
  "fst ` set (assign_property key v props)
     = (if key = ''__proto__'' then fst ` set props else insert key (fst ` set props))"
proof -
  have "set (map fst (AList.update key v props)) = insert key (set (map fst props))"
    unfolding update_keys by auto
  then show ?thesis by (simp add: assign_property_def)
qed

lemma distinct_assign_property:
  "distinct (map fst props) \<Longrightarrow> distinct (map fst (assign_property key v props))"
  by (simp add: assign_property_def distinct_update)

lemma runAfterChanges_eq:
  "runAfterChanges e w =
     (if length (unlinkedTests e w) = length (dirtyPaths w) then cleaned e w
      else if length (dirtySources e w) = 0 then run e (Some (addedOrChangedTests e w)) (cleaned e w)
      else if length (testsBySource e w) \<noteq> length (dirtySources e w) then run e None (cleaned e w)
      else run e (Some (array_union (addedOrChangedTests e w)
                          (array_uniq (arr_flatten (testsBySource e w))))) (cleaned e w))"
  unfolding runAfterChanges_def Let_def dirtyPaths_def dirtyTests_def dirtySources_def
      addedOrChangedTests_def unlinkedTests_def cleaned_def testsBySource_def
  by (rule refl)

lemma length_filter_eq: "length (filter P xs) = length xs \<longleftrightarrow> (\<forall>x\<in>set xs. P x)"
  by (metis filter_id_conv length_filter_less less_irrefl filter_True)

lemma dirtySources_iff: "p \<in> set (dirtySources e w) \<longleftrightarrow> p \<in> set (dirtyPaths w) \<and> \<not> isTest e p"
  by (auto simp: dirtySources_def arr_diff_def dirtyTests_def)

lemma dirtySources_filter: "dirtySources e w = filter (\<lambda>p. \<not> isTest e p) (dirtyPaths w)"
  by (auto simp: dirtySources_def arr_diff_def dirtyTests_def intro: filter_cong)

lemma unlinkedTests_filter:
  "unlinkedTests e w = filter (\<lambda>p. map_of (dirtyStates w) p = Some Unlink) (dirtyTests e w)"
  by (auto simp: unlinkedTests_def arr_diff_def addedOrChangedTests_def intro: filter_cong)

lemma unlinkedTests_iff:
  "p \<in> set (unlinkedTests e w) \<longleftrightarrow> isTest e p \<and> map_of (dirtyStates w) p = Some Unlink"
  by (auto simp: unlinkedTests_filter dirtyTests_def dirtyPaths_def dest: map_of_SomeD
      intro: rev_image_eqI)

lemma all_unlinked_iff:
  "length (unlinkedTests e w) = length (dirtyPaths w) \<longleftrightarrow>
   (\<forall>p\<in>set (dirtyPaths w). isTest e p \<and> map_of (dirtyStates w) p = Some Unlink)"
proof -
  have "unlinkedTests e w = filter (\<lambda>p. isTest e p \<and> map_of (dirtyStates w) p = Some Unlink) (dirtyPaths w)"
    by (simp add: unlinkedTests_filter dirtyTests_def conj_commute)
  then show ?thesis by (simp add: length_filter_eq)
qed

lemma no_sources_iff: "length (dirtySources e w) = 0 \<longleftrightarrow> (\<forall>p\<in>set (dirtyPaths w). isTest e p)"
  by (auto simp: dirtySources_filter filter_empty_conv)

lemma all_traced_iff:
  "length (testsBySource e w) = length (dirtySources e w) \<longleftrightarrow>
   (\<forall>p\<in>set (dirtySources e w). tracedTests (testDependencies (cleaned e w)) p \<noteq> [])"
  by (simp add: testsBySource_def length_filter_eq [of _ "map f xs" for f xs, simplified])

lemma updateTestDependencies_frame [simp]:
  "clearLogOnNextRun (updateTestDependencies T srcs w) = clearLogOnNextRun w"
  "runVector (updateTestDependencies T srcs w) = runVector w"
  "filesWithExclusiveTests (updateTestDependencies T srcs w) = filesWithExclusiveTests w"
  "filesWithFailures (updateTestDependencies T srcs w) = filesWithFailures w"
  "dirtyStates (updateTestDependencies T srcs w) = dirtyStates w"
  "timer (updateTestDependencies T srcs w) = timer w"
  "again (updateTestDependencies T srcs w) = again w"
  "timeouts (updateTestDependencies T srcs w) = timeouts w"
  "listeners (updateTestDependencies T srcs w) = listeners w"
  "pending (updateTestDependencies T srcs w) = pending w"
  "calls (updateTestDependencies T srcs w) = calls w"
  "decisions (updateTestDependencies T srcs w) = decisions w"
  by (simp_all add: updateTestDependencies_def Let_def)

lemma updateExclusivity_frame [simp]:
  "clearLogOnNextRun (updateExclusivity T b w) = clearLogOnNextRun w"
  "runVector (updateExclusivity T b w) = runVector w"
  "testDependencies (updateExclusivity T b w) = testDependencies w"
  "filesWithFailures (updateExclusivity T b w) = filesWithFailures w"
  "dirtyStates (updateExclusivity T b w) = dirtyStates w"
  "timer (updateExclusivity T b w) = timer w"
  "again (updateExclusivity T b w) = again w"
  "timeouts (updateExclusivity T b w) = timeouts w"
  "listeners (updateExclusivity T b w) = listeners w"
  "pending (updateExclusivity T b w) = pending w"
  "calls (updateExclusivity T b w) = calls w"
  "decisions (updateExclusivity T b w) = decisions w"
  by (simp_all add: updateExclusivity_def)

lemma pruneFailures_frame [simp]:
  "clearLogOnNextRun (pruneFailures T w) = clearLogOnNextRun w"
  "runVector (pruneFailures T w) = runVector w"
  "testDependencies (pruneFailures T w) = testDependencies w"
  "filesWithExclusiveTests (pruneFailures T w) = filesWithExclusiveTests w"
  "dirtyStates (pruneFailures T w) = dirtyStates w"
  "timer (pruneFailures T w) = timer w"
  "again (pruneFailures T w) = again w"
  "timeouts (pruneFailures T w) = timeouts w"
  "listeners (pruneFailures T w) = listeners w"
  "pending (pruneFailures T w) = pending w"
  "calls (pruneFailures T w) = calls w"
  "decisions (pruneFailures T w) = decisions w"
  by (simp_all add: pruneFailures_def)

lemma countFailure_frame [simp]:
  "clearLogOnNextRun (countFailure T v w) = clearLogOnNextRun w"
  "runVector (countFailure T v w) = runVector w"
  "testDependencies (countFailure T v w) = testDependencies w"
  "filesWithExclusiveTests (countFailure T v w) = filesWithExclusiveTests w"
  "dirtyStates (countFailure T v w) = dirtyStates w"
  "timer (countFailure T v w) = timer w"
  "again (countFailure T v w) = again w"
  "timeouts (countFailure T v w) = timeouts w"
  "listeners (countFailure T v w) = listeners w"
  "pending (countFailure T v w) = pending w"
  "calls (countFailure T v w) = calls w"
  "decisions (countFailure T v w) = decisions w"
  by (simp_all add: countFailure_def Let_def)

lemma updateTestDependencies_Nil:
  "testDependencies (updateTestDependencies T [] w) = filter (\<lambda>dep. dep_file dep \<noteq> T) (testDependencies w)"
  by (simp add: updateTestDependencies_def)

lemma updateExclusivity_False:
  "filesWithExclusiveTests (updateExclusivity T False w) = remove1 T (filesWithExclusiveTests w)"
  by (simp add: updateExclusivity_def remove1_idem)

lemma pruneFailures_failures:
  "filesWithFailures (pruneFailures T w) = filter (\<lambda>state. st_file state \<noteq> T) (filesWithFailures w)"
  by (simp add: pruneFailures_def)

lemma cleanUnlinkedTests_frame [simp]:
  "clearLogOnNextRun (cleanUnlinkedTests us w) = clearLogOnNextRun w"
  "runVector (cleanUnlinkedTests us w) = runVector w"
  "dirtyStates (cleanUnlinkedTests us w) = dirtyStates w"
  "timer (cleanUnlinkedTests us w) = timer w"
  "again (cleanUnlinkedTests us w) = again w"
  "timeouts (cleanUnlinkedTests us w) = timeouts w"
  "listeners (cleanUnlinkedTests us w) = listeners w"
  "pending (cleanUnlinkedTests us w) = pending w"
  "calls (cleanUnlinkedTests us w) = calls w"
  "decisions (cleanUnlinkedTests us w) = decisions w"
  by (induction us arbitrary: w; simp add: cleanUnlinkedTests_def)+

lemma cleanUnlinkedTests_dependencies:
  "testDependencies (cleanUnlinkedTests us w)
     = filter (\<lambda>dep. dep_file dep \<notin> set us) (testDependencies w)"
proof (induction us arbitrary: w)
  case Nil
  show ?case by (simp add: cleanUnlinkedTests_def)
next
  case (Cons u us)
  have "cleanUnlinkedTests (u # us) w
          = cleanUnlinkedTests us
              (pruneFailures u (updateExclusivity u False (updateTestDependencies u [] w)))"
    by (simp add: cleanUnlinkedTests_def)
  then show ?case
    by (auto simp add: Cons.IH updateTestDependencies_Nil intro: filter_cong)
qed

lemma cleanUnlinkedTests_failures:
  "filesWithFailures (cleanUnlinkedTests us w)
     = filter (\<lambda>state. st_file state \<notin> set us) (filesWithFailures w)"
proof (induction us arbitrary: w)
  case Nil
  show ?case by (simp add: cleanUnlinkedTests_def)
next
  case (Cons u us)
  have "cleanUnlinkedTests (u # us) w
          = cleanUnlinkedTests us
              (pruneFailures u (updateExclusivity u False (updateTestDependencies u [] w)))"
    by (simp add: cleanUnlinkedTests_def)
  then show ?case
    by (auto simp add: Cons.IH pruneFailures_failures intro: filter_cong)
qed

lemma cleanUnlinkedTests_exclusive:
  "filesWithExclusiveTests (cleanUnlinkedTests us w) = fold remove1 us (filesWithExclusiveTests w)"
proof (induction us arbitrary: w)
  case Nil
  show ?case by (simp add: cleanUnlinkedTests_def)
next
  case (Cons u us)
  have "cleanUnlinkedTests (u # us) w
          = cleanUnlinkedTests us
              (pruneFailures u (updateExclusivity u False (updateTestDependencies u [] w)))"
    by (simp add: cleanUnlinkedTests_def)
  then show ?case
    by (simp add: Cons.IH updateExclusivity_False)
qed

lemma fold_remove1_distinct:
  "distinct xs \<Longrightarrow> fold remove1 us xs = filter (\<lambda>x. x \<notin> set us) xs"
proof (induction us arbitrary: xs)
  case Nil
  show ?case by simp
next
  case (Cons u us)
  then show ?case
    by (auto simp add: distinct_remove1_removeAll removeAll_filter_not_eq intro: filter_cong)
qed

lemma fold_remove1_subset: "set (fold remove1 us xs) \<subseteq> set xs"
proof (induction us arbitrary: xs)
  case Nil
  show ?case by simp
next
  case (Cons u us)
  have "set (fold remove1 us (remove1 u xs)) \<subseteq> set (remove1 u xs)" by (rule Cons.IH)
  then show ?case using set_remove1_subset [of u xs] by auto
qed

lemma fold_remove1_keeps_distinct: "distinct xs \<Longrightarrow> distinct (fold remove1 us xs)"
  by (induction us arbitrary: xs) auto

lemma fold_remove1_Nil: "fold remove1 us [] = []"
  by (induction us) auto

lemma cleaned_frame [simp]:
  "clearLogOnNextRun (cleaned e w) = clearLogOnNextRun w"
  "runVector (cleaned e w) = runVector w"
  "dirtyStates (cleaned e w) = []"
  "timer (cleaned e w) = timer w"
  "again (cleaned e w) = again w"
  "timeouts (cleaned e w) = timeouts w"
  "listeners (cleaned e w) = listeners w"
  "pending (cleaned e w) = pending w"
  "calls (cleaned e w) = calls w"
  "decisions (cleaned e w) = decisions w @ [dirtyStates w]"
  by (simp_all add: cleaned_def)

lemma cleaned_dependencies:
  "testDependencies (cleaned e w)
     = filter (\<lambda>dep. dep_file dep \<notin> set (unlinkedTests e w)) (testDependencies w)"
  by (simp add: cleaned_def cleanUnlinkedTests_dependencies)

lemma cleaned_failures:
  "filesWithFailures (cleaned e w)
     = filter (\<lambda>state. st_file state \<notin> set (unlinkedTests e w)) (filesWithFailures w)"
  by (simp add: cleaned_def cleanUnlinkedTests_failures)

lemma cleaned_exclusive:
  "filesWithExclusiveTests (cleaned e w) = fold remove1 (unlinkedTests e w) (filesWithExclusiveTests w)"
  by (simp add: cleaned_def cleanUnlinkedTests_exclusive)

lemma runAfterChanges_trackers:
  "testDependencies (runAfterChanges e w) = testDependencies (cleaned e w)"
  "filesWithExclusiveTests (runAfterChanges e w) = filesWithExclusiveTests (cleaned e w)"
  "filesWithFailures (runAfterChanges e w) = filesWithFailures (cleaned e w)"
  by (simp_all add: runAfterChanges_eq)

lemma runAfterChanges_frame [simp]:
  "dirtyStates (runAfterChanges e w) = []"
  "timer (runAfterChanges e w) = timer w"
  "again (runAfterChanges e w) = again w"
  "timeouts (runAfterChanges e w) = timeouts w"
  "listeners (runAfterChanges e w) = listeners w"
  "decisions (runAfterChanges e w) = decisions w @ [dirtyStates w]"
  by (simp_all add: runAfterChanges_eq)

lemma tracedTests_filter_subset:
  "tracedTests deps p = [] \<Longrightarrow> tracedTests (filter P deps) p = []"
  by (auto simp: tracedTests_def filter_empty_conv)

text \<open>The example watchers and the example environment, evaluated.\<close>

lemma after_first_run_eq:
  "after_first_run =
     \<lparr>clearLogOnNextRun = True, runVector = 1,
      testDependencies = [\<lparr>dep_file = ''test/a.js'', dep_sources = [''lib/util.js'']\<rparr>],
      filesWithExclusiveTests = [], filesWithFailures = [], dirtyStates = [],
      timer = None, again = False, timeouts = 0, listeners = [(0, 1)], pending = [],
      calls = [ApiRun [''test/*.js''] False,
               LoggerFinish \<lparr>failCount = 0, rejectionCount = 0, exceptionCount = 0,
                              previousFailCount = 0\<rparr>],
      decisions = []\<rparr>"
  by (simp add: after_first_run_def exec_def Watcher_def rerunAll_def blank_def run_def
      on_test_run_def on_dependencies_def listeners_on_def updateTestDependencies_def
      pruneFailures_def run_fulfilled_def sumPreviousFailures_def example_env_def Let_def)

lemma after_failed_run_eq:
  "after_failed_run =
     \<lparr>clearLogOnNextRun = False, runVector = 1,
      testDependencies = [\<lparr>dep_file = ''test/a.js'', dep_sources = [''lib/util.js'']\<rparr>],
      filesWithExclusiveTests = [''test/a.js''],
      filesWithFailures = [\<lparr>st_file = ''test/a.js'', st_vector = 1, st_count = 1\<rparr>],
      dirtyStates = [],
      timer = None, again = False, timeouts = 0, listeners = [(0, 1)], pending = [],
      calls = [ApiRun [''test/*.js''] False,
               LoggerFinish \<lparr>failCount = 1, rejectionCount = 0, exceptionCount = 0,
                              previousFailCount = 0\<rparr>],
      decisions = []\<rparr>"
  by (simp add: after_failed_run_def exec_def Watcher_def rerunAll_def blank_def run_def
      on_test_run_def on_dependencies_def on_stats_def on_test_def on_error_def listeners_on_def
      updateTestDependencies_def updateExclusivity_def countFailure_def
      pruneFailures_def run_fulfilled_def sumPreviousFailures_def example_env_def Let_def)

lemma after_exclusive_run_eq:
  "after_exclusive_run =
     \<lparr>clearLogOnNextRun = True, runVector = 1,
      testDependencies = [\<lparr>dep_file = ''test/a.js'', dep_sources = [''lib/util.js'']\<rparr>],
      filesWithExclusiveTests = [''test/b.js''], filesWithFailures = [], dirtyStates = [],
      timer = None, again = False, timeouts = 0, listeners = [(0, 1)], pending = [],
      calls = [ApiRun [''test/*.js''] False,
               LoggerFinish \<lparr>failCount = 0, rejectionCount = 0, exceptionCount = 0,
                              previousFailCount = 0\<rparr>],
      decisions = []\<rparr>"
  by (simp add: after_exclusive_run_def exec_def Watcher_def rerunAll_def blank_def run_def
      on_test_run_def on_dependencies_def on_stats_def listeners_on_def
      updateTestDependencies_def updateExclusivity_def
      pruneFailures_def run_fulfilled_def sumPreviousFailures_def example_env_def Let_def)

lemma example_env_simps [simp]:
  "files example_env = [''test/*.js'']"
  "isTest example_env p \<longleftrightarrow> p = ''test/a.js'' \<or> p = ''test/b.js''"
  "isSource example_env p \<longleftrightarrow> p = ''lib/util.js''"
  "relative example_env p = p"
  "logger_clear example_env = True"
  by (simp_all add: example_env_def)

lemmas decision_simps =
  assign_property_def object_keys_def is_array_index_def is_digit_def
  dirtyPaths_def dirtyTests_def dirtySources_filter addedOrChangedTests_def unlinkedTests_filter
  cleaned_dependencies cleaned_exclusive cleaned_failures testsBySource_def affectedTests_def
  tracedTests_def contains_def array_union_def arr_flatten_def arr_diff_def

lemma runAfterChanges_full_run:
  assumes p: "p \<in> set (dirtySources e w)"
    and none: "tracedTests (testDependencies (cleaned e w)) p = []"
  shows "runAfterChanges e w = run e None (cleaned e w)"
proof -
  from p have "\<not> (\<forall>p\<in>set (dirtyPaths w). isTest e p \<and> map_of (dirtyStates w) p = Some Unlink)"
    by (auto simp: dirtySources_iff)
  then have a: "length (unlinkedTests e w) \<noteq> length (dirtyPaths w)"
    by (simp only: all_unlinked_iff not_False_eq_True)
  from p have b: "length (dirtySources e w) \<noteq> 0" by auto
  from p none have c: "length (testsBySource e w) \<noteq> length (dirtySources e w)"
    by (auto simp only: all_traced_iff)
  show ?thesis
    using a b c by (simp only: runAfterChanges_eq if_False if_True not_False_eq_True simp_thms)
qed

text \<open>
  C2. If some dirty path that is not a test has no traced test, in the dependencies as
  the cycle finds them or as they are once the removed tests are cleaned up, the cycle
  calls \<^verbatim>\<open>this.run()\<close> without a file list: the API runs the configured \<open>files\<close>,
  without \<open>runOnlyExclusive\<close>, under a new run vector.
\<close>

theorem runAfterChanges_untraceable:
  "p \<in> set (dirtySources e w) \<Longrightarrow>
   tracedTests (testDependencies w) p = [] \<or> tracedTests (testDependencies (cleaned e w)) p = [] \<Longrightarrow>
   runAfterChanges e w = run e None (cleaned e w)
   \<and> last (calls (runAfterChanges e w)) = ApiRun (files e) False
   \<and> runVector (runAfterChanges e w) = Suc (runVector w)"
proof -
  assume p: "p \<in> set (dirtySources e w)"
    and "tracedTests (testDependencies w) p = [] \<or> tracedTests (testDependencies (cleaned e w)) p = []"
  then have "tracedTests (testDependencies (cleaned e w)) p = []"
    by (auto simp: cleaned_dependencies tracedTests_filter_subset)
  with p have "runAfterChanges e w = run e None (cleaned e w)"
    by (rule runAfterChanges_full_run)
  then show ?thesis
    by (simp add: run_last_call_None)
qed

lemma set_array_uniq [simp]: "set (array_uniq xs) = set xs"
  by (induction xs rule: array_uniq.induct) auto

lemma distinct_array_uniq [simp]: "distinct (array_uniq xs)"
  by (induction xs rule: array_uniq.induct) auto

lemma array_uniq_distinct: "distinct xs \<Longrightarrow> array_uniq xs = xs"
  by (induction xs rule: array_uniq.induct) (auto simp: filter_id_conv)

lemma array_uniq_Nil [simp]: "array_uniq xs = [] \<longleftrightarrow> xs = []"
  by (cases xs) auto

lemma testsBySource_all:
  "\<forall>p\<in>set (dirtySources e w). tracedTests (testDependencies (cleaned e w)) p \<noteq> [] \<Longrightarrow>
   testsBySource e w = map (tracedTests (testDependencies (cleaned e w))) (dirtySources e w)"
  by (simp add: testsBySource_def filter_id_conv)

lemma distinct_addedOrChangedTests: "distinct (dirtyPaths w) \<Longrightarrow> distinct (addedOrChangedTests e w)"
  by (simp add: addedOrChangedTests_def dirtyTests_def)

lemma addedOrChangedTests_iff:
  "p \<in> set (addedOrChangedTests e w) \<longleftrightarrow>
   p \<in> set (dirtyPaths w) \<and> isTest e p \<and> map_of (dirtyStates w) p \<noteq> Some Unlink"
  by (auto simp: addedOrChangedTests_def dirtyTests_def)

text \<open>
  C3 as amended. If every dirty path that is not a test has a traced test once the
  removed tests are cleaned up (and no path is dirty twice), the cycle calls \<^verbatim>\<open>this.run\<close>
  with exactly the affected tests: the added or changed dirty tests followed by the
  traced tests of the dirty sources, each file once. When that list is empty (every
  dirty path is a removed test) nothing is run. If only \<open>S\<close> is dirty, \<open>S\<close> is not a test
  and \<open>T\<close> is the one test that depends on it, the request is for \<open>T\<close> alone.

  What the API then runs is that list only when it contains every file that still has
  exclusive tests (as when no file has any); otherwise it is all the files with
  exclusive tests followed by the rest of the list, with \<open>runOnlyExclusive\<close>.
\<close>

theorem runAfterChanges_affected:
  assumes traced: "\<forall>p\<in>set (dirtySources e w). tracedTests (testDependencies (cleaned e w)) p \<noteq> []"
    and keys: "distinct (dirtyPaths w)"
  shows "runAfterChanges e w =
           (if affectedTests e w = [] then cleaned e w
            else run e (Some (affectedTests e w)) (cleaned e w))
       \<and> distinct (affectedTests e w)
       \<and> set (affectedTests e w) =
           set (addedOrChangedTests e w)
           \<union> (\<Union>p\<in>set (dirtySources e w). set (tracedTests (testDependencies (cleaned e w)) p))
       \<and> (dirtyStates w = [(S, ev)] \<and> \<not> isTest e S \<and> tracedTests (testDependencies w) S = [T] \<longrightarrow>
            runAfterChanges e w = run e (Some [T]) (cleaned e w))
       \<and> (distinct (filesWithExclusiveTests w) \<and> affectedTests e w \<noteq> [] \<longrightarrow>
            last (calls (runAfterChanges e w)) =
              (if set (filesWithExclusiveTests (cleaned e w)) \<subseteq> set (affectedTests e w)
               then ApiRun (affectedTests e w) False
               else ApiRun (filesWithExclusiveTests (cleaned e w)
                            @ filter (\<lambda>f. f \<notin> set (filesWithExclusiveTests (cleaned e w)))
                                (affectedTests e w)) True))
       \<and> (filesWithExclusiveTests w = [] \<and> affectedTests e w \<noteq> [] \<longrightarrow>
            last (calls (runAfterChanges e w)) = ApiRun (affectedTests e w) False)"
proof -
  let ?deps = "testDependencies (cleaned e w)"
  have tbs: "testsBySource e w = map (tracedTests ?deps) (dirtySources e w)"
    using traced by (rule testsBySource_all)
  have all_traced: "length (testsBySource e w) = length (dirtySources e w)"
    by (simp add: tbs)
  have dist: "distinct (affectedTests e w)"
    by (simp add: affectedTests_def array_union_def)
  have elems: "set (affectedTests e w) =
      set (addedOrChangedTests e w) \<union> (\<Union>p\<in>set (dirtySources e w). set (tracedTests ?deps p))"
    by (simp add: affectedTests_def array_union_def arr_flatten_def tbs)
  have eq: "runAfterChanges e w =
      (if affectedTests e w = [] then cleaned e w
       else run e (Some (affectedTests e w)) (cleaned e w))"
  proof (cases "length (unlinkedTests e w) = length (dirtyPaths w)")
    case True
    then have all: "\<forall>p\<in>set (dirtyPaths w). isTest e p \<and> map_of (dirtyStates w) p = Some Unlink"
      by (simp only: all_unlinked_iff)
    then have "\<And>p. p \<notin> set (affectedTests e w)"
      unfolding elems by (auto simp: addedOrChangedTests_iff dirtySources_iff)
    then have "affectedTests e w = []" by (cases "affectedTests e w") auto
    with True show ?thesis by (simp add: runAfterChanges_eq)
  next
    case False
    then obtain q where q: "q \<in> set (dirtyPaths w)"
        "\<not> (isTest e q \<and> map_of (dirtyStates w) q = Some Unlink)"
      by (auto simp only: all_unlinked_iff)
    show ?thesis
    proof (cases "length (dirtySources e w) = 0")
      case True
      then have nosrc: "dirtySources e w = []" by simp
      have "affectedTests e w = array_uniq (addedOrChangedTests e w)"
        by (simp add: affectedTests_def array_union_def arr_flatten_def tbs nosrc)
      then have aff: "affectedTests e w = addedOrChangedTests e w"
        using keys by (simp add: array_uniq_distinct distinct_addedOrChangedTests)
      from True have "\<forall>p\<in>set (dirtyPaths w). isTest e p" by (simp only: no_sources_iff)
      with q(1) have "isTest e q" by blast
      then have "q \<in> set (addedOrChangedTests e w)" using q by (simp add: addedOrChangedTests_iff)
      then have "affectedTests e w \<noteq> []" using aff by auto
      then show ?thesis
        using False True aff by (simp add: runAfterChanges_eq)
    next
      case nonempty: False
      then obtain s where s: "s \<in> set (dirtySources e w)" by (cases "dirtySources e w") auto
      then have "tracedTests ?deps s \<noteq> []" using traced by blast
      then obtain t where "t \<in> set (tracedTests ?deps s)" by (cases "tracedTests ?deps s") auto
      then have "t \<in> set (affectedTests e w)" unfolding elems using s by blast
      then have "affectedTests e w \<noteq> []" by auto
      then show ?thesis
        using False nonempty all_traced by (simp add: runAfterChanges_eq affectedTests_def)
    qed
  qed
  have example: "dirtyStates w = [(S, ev)] \<and> \<not> isTest e S \<and> tracedTests (testDependencies w) S = [T] \<longrightarrow>
            runAfterChanges e w = run e (Some [T]) (cleaned e w)"
  proof
    assume h: "dirtyStates w = [(S, ev)] \<and> \<not> isTest e S \<and> tracedTests (testDependencies w) S = [T]"
    then have paths: "dirtyPaths w = [S]" "dirtyTests e w = []" "dirtySources e w = [S]"
        "addedOrChangedTests e w = []" "unlinkedTests e w = []"
      by (simp_all add: dirtyPaths_def dirtyTests_def dirtySources_def addedOrChangedTests_def
          unlinkedTests_def arr_diff_def)
    have "testDependencies (cleaned e w) = testDependencies w"
      by (simp add: cleaned_dependencies paths)
    then have "affectedTests e w = [T]"
      using h by (simp add: affectedTests_def array_union_def arr_flatten_def tbs paths)
    then show "runAfterChanges e w = run e (Some [T]) (cleaned e w)"
      using eq by simp
  qed
  have api: "filesWithExclusiveTests w = [] \<and> affectedTests e w \<noteq> [] \<longrightarrow>
            last (calls (runAfterChanges e w)) = ApiRun (affectedTests e w) False"
    by (simp add: eq run_last_call_Some cleaned_exclusive fold_remove1_Nil)
  have api_sets: "distinct (filesWithExclusiveTests w) \<and> affectedTests e w \<noteq> [] \<longrightarrow>
            last (calls (runAfterChanges e w)) =
              (if set (filesWithExclusiveTests (cleaned e w)) \<subseteq> set (affectedTests e w)
               then ApiRun (affectedTests e w) False
               else ApiRun (filesWithExclusiveTests (cleaned e w)
                            @ filter (\<lambda>f. f \<notin> set (filesWithExclusiveTests (cleaned e w)))
                                (affectedTests e w)) True)"
  proof
    assume h: "distinct (filesWithExclusiveTests w) \<and> affectedTests e w \<noteq> []"
    then have "distinct (filesWithExclusiveTests (cleaned e w))"
      by (simp add: cleaned_exclusive fold_remove1_keeps_distinct)
    with dist have "last (calls (run e (Some (affectedTests e w)) (cleaned e w))) =
              (if set (filesWithExclusiveTests (cleaned e w)) \<subseteq> set (affectedTests e w)
               then ApiRun (affectedTests e w) False
               else ApiRun (filesWithExclusiveTests (cleaned e w)
                            @ filter (\<lambda>f. f \<notin> set (filesWithExclusiveTests (cleaned e w)))
                                (affectedTests e w)) True)"
      by (rule run_last_call_sets)
    then show "last (calls (runAfterChanges e w)) =
              (if set (filesWithExclusiveTests (cleaned e w)) \<subseteq> set (affectedTests e w)
               then ApiRun (affectedTests e w) False
               else ApiRun (filesWithExclusiveTests (cleaned e w)
                            @ filter (\<lambda>f. f \<notin> set (filesWithExclusiveTests (cleaned e w)))
                                (affectedTests e w)) True)"
      using h eq by simp
  qed
  show ?thesis using eq dist elems example api_sets api by blast
qed

text \<open>
  C4. After a decision cycle, a test whose dirty state is a removal has no dependency
  entry, is not among the files with exclusive tests and has no failure record. If
  every dirty path is a removed test, the cycle makes no call to the logger or the API,
  keeps the run vector and starts no run.
\<close>

theorem runAfterChanges_removed:
  assumes "distinct (filesWithExclusiveTests w)"
  shows "(isTest e T \<and> map_of (dirtyStates w) T = Some Unlink \<longrightarrow>
            T \<notin> set (map dep_file (testDependencies (runAfterChanges e w)))
          \<and> T \<notin> set (filesWithExclusiveTests (runAfterChanges e w))
          \<and> T \<notin> set (map st_file (filesWithFailures (runAfterChanges e w))))
       \<and> ((\<forall>p\<in>set (dirtyPaths w). isTest e p \<and> map_of (dirtyStates w) p = Some Unlink) \<longrightarrow>
            calls (runAfterChanges e w) = calls w
          \<and> runVector (runAfterChanges e w) = runVector w
          \<and> pending (runAfterChanges e w) = pending w)"
proof -
  have cleanup: "isTest e T \<and> map_of (dirtyStates w) T = Some Unlink \<longrightarrow>
            T \<notin> set (map dep_file (testDependencies (runAfterChanges e w)))
          \<and> T \<notin> set (filesWithExclusiveTests (runAfterChanges e w))
          \<and> T \<notin> set (map st_file (filesWithFailures (runAfterChanges e w)))"
  proof
    assume "isTest e T \<and> map_of (dirtyStates w) T = Some Unlink"
    then have T: "T \<in> set (unlinkedTests e w)" by (simp add: unlinkedTests_iff)
    show "T \<notin> set (map dep_file (testDependencies (runAfterChanges e w)))
          \<and> T \<notin> set (filesWithExclusiveTests (runAfterChanges e w))
          \<and> T \<notin> set (map st_file (filesWithFailures (runAfterChanges e w)))"
      using T assms
      by (auto simp add: runAfterChanges_trackers cleaned_dependencies cleaned_failures
          cleaned_exclusive fold_remove1_distinct)
  qed
  have norun: "(\<forall>p\<in>set (dirtyPaths w). isTest e p \<and> map_of (dirtyStates w) p = Some Unlink) \<longrightarrow>
            calls (runAfterChanges e w) = calls w
          \<and> runVector (runAfterChanges e w) = runVector w
          \<and> pending (runAfterChanges e w) = pending w"
  proof
    assume "\<forall>p\<in>set (dirtyPaths w). isTest e p \<and> map_of (dirtyStates w) p = Some Unlink"
    then have "length (unlinkedTests e w) = length (dirtyPaths w)"
      by (simp only: all_unlinked_iff)
    then have "runAfterChanges e w = cleaned e w" by (simp add: runAfterChanges_eq)
    then show "calls (runAfterChanges e w) = calls w
          \<and> runVector (runAfterChanges e w) = runVector w
          \<and> pending (runAfterChanges e w) = pending w"
      by simp
  qed
  show ?thesis using cleanup norun by blast
qed

section \<open>Invariants of the reachable watchers\<close>

lemma exec_invariant:
  assumes "P w" and "\<And>i w. P w \<Longrightarrow> P (step e i w)"
  shows "P (exec e inputs w)"
  using assms(1) unfolding exec_def
  by (induction inputs arbitrary: w) (simp_all add: assms(2))

lemma fold_invariant:
  assumes "P w" and "\<And>x w. P w \<Longrightarrow> P (f x w)"
  shows "P (fold f xs w)"
  using assms(1) by (induction xs arbitrary: w) (simp_all add: assms(2))

lemma debounce_frame [simp]:
  "clearLogOnNextRun (debounce w) = clearLogOnNextRun w"
  "runVector (debounce w) = runVector w"
  "testDependencies (debounce w) = testDependencies w"
  "filesWithExclusiveTests (debounce w) = filesWithExclusiveTests w"
  "filesWithFailures (debounce w) = filesWithFailures w"
  "dirtyStates (debounce w) = dirtyStates w"
  "listeners (debounce w) = listeners w"
  "pending (debounce w) = pending w"
  "calls (debounce w) = calls w"
  "decisions (debounce w) = decisions w"
  by (simp_all add: debounce_def)

lemma cancel_frame [simp]:
  "clearLogOnNextRun (cancel w) = clearLogOnNextRun w"
  "runVector (cancel w) = runVector w"
  "testDependencies (cancel w) = testDependencies w"
  "filesWithExclusiveTests (cancel w) = filesWithExclusiveTests w"
  "filesWithFailures (cancel w) = filesWithFailures w"
  "dirtyStates (cancel w) = dirtyStates w"
  "timeouts (cancel w) = timeouts w"
  "listeners (cancel w) = listeners w"
  "pending (cancel w) = pending w"
  "calls (cancel w) = calls w"
  "decisions (cancel w) = decisions w"
  by (simp_all add: cancel_def)

lemma runAfterChanges_runVector:
  "runVector w \<le> runVector (runAfterChanges e w)"
  by (simp add: runAfterChanges_eq)

lemma dirtyPaths_simps [simp]:
  "dirtyPaths (w\<lparr>dirtyStates := ds\<rparr>) = object_keys ds"
  by (simp add: dirtyPaths_def)

lemma sets_distinct_updateTestDependencies:
  "sets_distinct w \<Longrightarrow> sets_distinct (updateTestDependencies T srcs w)"
  by (simp add: sets_distinct_def updateTestDependencies_distinct dirtyPaths_def)

lemma sets_distinct_updateExclusivity:
  "sets_distinct w \<Longrightarrow> sets_distinct (updateExclusivity T b w)"
  by (simp add: sets_distinct_def dirtyPaths_def) (simp add: updateExclusivity_def)

lemma sets_distinct_runAfterChanges:
  "sets_distinct w \<Longrightarrow> sets_distinct (runAfterChanges e w)"
  by (simp add: sets_distinct_def dirtyPaths_def runAfterChanges_trackers cleaned_dependencies
      cleaned_exclusive fold_remove1_keeps_distinct distinct_map_filter)

lemma sets_distinct_step: "sets_distinct w \<Longrightarrow> sets_distinct (step e i w)"
proof (cases i)
  case (FsEvent ev p)
  assume "sets_distinct w"
  then show ?thesis
    by (simp add: FsEvent on_all_def sets_distinct_def distinct_assign_property)
next
  case (TimerCallback t)
  assume "sets_distinct w"
  then show ?thesis
    using sets_distinct_runAfterChanges [of w e]
    by (simp add: TimerCallback timerCallback_def sets_distinct_def dirtyPaths_def)
next
  case (TestRun rs fs)
  assume "sets_distinct w"
  then have "sets_distinct (fold (\<lambda>file. pruneFailures (relative e file)) fs w)"
    by (rule fold_invariant) (simp add: sets_distinct_def dirtyPaths_def)
  then show ?thesis
    by (simp add: TestRun on_test_run_def Let_def sets_distinct_def dirtyPaths_def)
next
  case (Dependencies rs f deps)
  assume "sets_distinct w"
  then show ?thesis
    unfolding Dependencies step.simps on_dependencies_def Let_def
    by (rule fold_invariant) (rule sets_distinct_updateTestDependencies)
next
  case (Stats f b)
  assume "sets_distinct w"
  then show ?thesis
    by (simp add: Stats on_stats_def sets_distinct_updateExclusivity)
next
  case (ErrorEvent rs f)
  assume "sets_distinct w"
  then show ?thesis
    unfolding ErrorEvent step.simps on_error_def
    by (rule fold_invariant) (simp add: sets_distinct_def dirtyPaths_def)
next
  case (TestEvent rs f b)
  assume a: "sets_distinct w"
  have "sets_distinct (on_error rs f w)"
    unfolding on_error_def using a
    by (rule fold_invariant) (simp add: sets_distinct_def dirtyPaths_def)
  then show ?thesis using a by (simp add: TestEvent on_test_def)
next
  case (RunFulfilled v st)
  assume "sets_distinct w"
  then show ?thesis
    by (simp add: RunFulfilled run_fulfilled_def Let_def sets_distinct_def dirtyPaths_def)
next
  case RerunLine
  assume "sets_distinct w"
  then show ?thesis by (simp add: RerunLine sets_distinct_def dirtyPaths_def)
next
  case RerunContinuation
  assume "sets_distinct w"
  then show ?thesis by (simp add: RerunContinuation rerunAll_def sets_distinct_def dirtyPaths_def)
qed

lemma sets_distinct_Watcher: "sets_distinct (Watcher e)"
  by (simp add: Watcher_def rerunAll_def sets_distinct_def dirtyPaths_def blank_def)

lemma sets_distinct_reachable: "sets_distinct (exec e inputs (Watcher e))"
  using sets_distinct_Watcher sets_distinct_step by (rule exec_invariant)

lemma distinct_dirtyPaths: "sets_distinct w \<Longrightarrow> distinct (dirtyPaths w)"
  by (simp add: sets_distinct_def dirtyPaths_def distinct_object_keys)

lemma distinct_dirtyPaths_reachable: "distinct (dirtyPaths (exec e inputs (Watcher e)))"
  using sets_distinct_reachable by (rule distinct_dirtyPaths)

lemma fold_invariant_in:
  assumes "P w" and "\<And>x w. x \<in> set xs \<Longrightarrow> P w \<Longrightarrow> P (f x w)"
  shows "P (fold f xs w)"
  using assms by (induction xs arbitrary: w) simp_all

lemma countFailure_vectors:
  "set (map st_vector (filesWithFailures (countFailure f v w)))
     \<subseteq> insert v (set (map st_vector (filesWithFailures w)))"
  by (auto simp add: countFailure_def Let_def increment_count_vector simp del: set_map)

lemma records_bounded_iff:
  "(\<forall>state\<in>set states. st_vector state \<le> n) \<longleftrightarrow> (\<forall>v\<in>set (map st_vector states). v \<le> n)"
  by auto

lemma generations_bounded_countFailure:
  assumes "generations_bounded w" and "v \<le> runVector w"
  shows "generations_bounded (countFailure f v w)"
proof -
  have "\<forall>x\<in>set (map st_vector (filesWithFailures (countFailure f v w))). x \<le> runVector w"
    using assms countFailure_vectors [of f v w]
    unfolding generations_bounded_def records_bounded_iff by blast
  then show ?thesis
    using assms(1) unfolding generations_bounded_def records_bounded_iff by simp
qed

lemma generations_bounded_pruneFailures:
  "generations_bounded w \<Longrightarrow> generations_bounded (pruneFailures f w)"
  by (simp add: generations_bounded_def pruneFailures_failures)

lemma generations_bounded_run:
  "generations_bounded w \<Longrightarrow> generations_bounded (run e sf w)"
  by (fastforce simp add: generations_bounded_def)

lemma generations_bounded_on_error:
  assumes "generations_bounded w"
  shows "generations_bounded (on_error rs f w) \<and> runVector (on_error rs f w) = runVector w"
  unfolding on_error_def
proof (rule fold_invariant_in [where P = "\<lambda>w'. generations_bounded w' \<and> runVector w' = runVector w"])
  show "generations_bounded w \<and> runVector w = runVector w" using assms by simp
next
  fix l w'
  assume l: "l \<in> set (listeners_on rs w)"
    and w': "generations_bounded w' \<and> runVector w' = runVector w"
  from l assms have "snd l \<le> runVector w"
    by (simp add: listeners_on_def generations_bounded_def)
  then show "generations_bounded (countFailure f (snd l) w') \<and> runVector (countFailure f (snd l) w') = runVector w"
    using w' by (simp add: generations_bounded_countFailure)
qed

lemma generations_bounded_runAfterChanges:
  assumes "generations_bounded w"
  shows "generations_bounded (runAfterChanges e w)"
proof -
  have "\<forall>state\<in>set (filesWithFailures (runAfterChanges e w)). st_vector state \<le> runVector w"
    using assms by (simp add: generations_bounded_def runAfterChanges_trackers cleaned_failures)
  moreover have "\<forall>l\<in>set (listeners (runAfterChanges e w)). snd l \<le> runVector w"
    using assms by (simp add: generations_bounded_def)
  ultimately show ?thesis
    using runAfterChanges_runVector [of w e] unfolding generations_bounded_def
    by (meson le_trans)
qed

lemma generations_bounded_step:
  assumes a: "generations_bounded w"
  shows "generations_bounded (step e i w)"
proof (cases i)
  case (FsEvent ev p)
  show ?thesis using a by (simp add: FsEvent on_all_def generations_bounded_def)
next
  case (TimerCallback t)
  show ?thesis
    using a generations_bounded_runAfterChanges [OF a, of e]
    by (simp add: TimerCallback timerCallback_def generations_bounded_def)
next
  case (TestRun rs fs)
  have "generations_bounded (fold (\<lambda>file. pruneFailures (relative e file)) fs w)
        \<and> runVector (fold (\<lambda>file. pruneFailures (relative e file)) fs w) = runVector w"
    by (rule fold_invariant [where P = "\<lambda>w'. generations_bounded w' \<and> runVector w' = runVector w"])
      (simp_all add: a generations_bounded_pruneFailures)
  then show ?thesis
    by (auto simp add: TestRun on_test_run_def Let_def generations_bounded_def)
next
  case (Dependencies rs f deps)
  show ?thesis
    unfolding Dependencies step.simps on_dependencies_def Let_def
    using a by (rule fold_invariant) (simp add: generations_bounded_def)
next
  case (Stats f b)
  show ?thesis using a by (simp add: Stats on_stats_def generations_bounded_def)
next
  case (ErrorEvent rs f)
  show ?thesis using generations_bounded_on_error [OF a] by (simp add: ErrorEvent)
next
  case (TestEvent rs f b)
  show ?thesis using a generations_bounded_on_error [OF a] by (simp add: TestEvent on_test_def)
next
  case (RunFulfilled v st)
  show ?thesis
    using a by (simp add: RunFulfilled run_fulfilled_def Let_def generations_bounded_def)
next
  case RerunLine
  show ?thesis using a by (simp add: RerunLine generations_bounded_def)
next
  case RerunContinuation
  have "generations_bounded ((cancel w)\<lparr>clearLogOnNextRun := False, dirtyStates := []\<rparr>)"
    using a by (simp add: generations_bounded_def)
  then show ?thesis
    unfolding RerunContinuation step.simps rerunAll_def
    by (simp add: generations_bounded_run)
qed

lemma runVector_step: "runVector w \<le> runVector (step e i w)"
proof (cases i)
  case (TestRun rs fs)
  have "runVector (fold (\<lambda>file. pruneFailures (relative e file)) fs w) = runVector w"
    by (rule fold_invariant [where P = "\<lambda>w'. runVector w' = runVector w"]) simp_all
  then show ?thesis by (simp add: TestRun on_test_run_def Let_def)
next
  case (Dependencies rs f deps)
  have "runVector (on_dependencies e rs f deps w) = runVector w"
    unfolding on_dependencies_def Let_def
    by (rule fold_invariant [where P = "\<lambda>w'. runVector w' = runVector w"]) simp_all
  then show ?thesis by (simp add: Dependencies)
next
  case (ErrorEvent rs f)
  have "runVector (on_error rs f w) = runVector w"
    unfolding on_error_def
    by (rule fold_invariant [where P = "\<lambda>w'. runVector w' = runVector w"]) simp_all
  then show ?thesis by (simp add: ErrorEvent)
next
  case (TestEvent rs f b)
  have "runVector (on_error rs f w) = runVector w"
    unfolding on_error_def
    by (rule fold_invariant [where P = "\<lambda>w'. runVector w' = runVector w"]) simp_all
  then show ?thesis by (simp add: TestEvent on_test_def)
qed (simp_all add: on_all_def timerCallback_def runAfterChanges_runVector on_stats_def
      run_fulfilled_def Let_def rerunAll_def)

lemma generations_bounded_Watcher: "generations_bounded (Watcher e)"
  by (simp add: Watcher_def rerunAll_def generations_bounded_def blank_def)

lemma generations_bounded_reachable: "generations_bounded (exec e inputs (Watcher e))"
  using generations_bounded_Watcher generations_bounded_step by (rule exec_invariant)

text \<open>
  C7. In every watcher reached from the constructor by any inputs, the run vector of
  every failure record is at most the watcher's run vector. No input lowers the run
  vector, and the bound (with the same bound on the vectors the failure listeners
  captured) is kept by every input, by starting a run, by pruning the records of a file
  and by counting a failure under a vector that is at most the watcher's.
\<close>

theorem failure_generations_bounded:
  "(\<forall>state\<in>set (filesWithFailures (exec e inputs (Watcher e))).
       st_vector state \<le> runVector (exec e inputs (Watcher e)))
   \<and> runVector w \<le> runVector (step e i w)
   \<and> (generations_bounded w \<longrightarrow>
        generations_bounded (step e i w)
        \<and> generations_bounded (run e specificFiles w)
        \<and> generations_bounded (pruneFailures file w)
        \<and> (vector \<le> runVector w \<longrightarrow> generations_bounded (countFailure file vector w)))"
  using generations_bounded_reachable [of e inputs] runVector_step [of w e i]
    generations_bounded_step [of w e i] generations_bounded_run [of w e specificFiles]
    generations_bounded_pruneFailures [of w "file"]
    generations_bounded_countFailure [of w vector "file"]
  unfolding generations_bounded_def [of "exec e inputs (Watcher e)"]
  by blast

lemma assign_sources_elems:
  "dep \<in> set (assign_sources f srcs deps) \<Longrightarrow> dep \<in> set deps \<or> dep_sources dep = srcs"
  by (induction deps) (auto split: if_splits)

lemma dependencies_are_sources_update:
  assumes "dependencies_are_sources e w" and "\<forall>s\<in>set srcs. isSource e s"
  shows "dependencies_are_sources e (updateTestDependencies T srcs w)"
  using assms unfolding dependencies_are_sources_def updateTestDependencies_def Let_def
  by (auto dest!: assign_sources_elems)

lemma dependencies_are_sources_cong:
  "set (testDependencies w') \<subseteq> set (testDependencies w) \<Longrightarrow> dependencies_are_sources e w \<Longrightarrow>
   dependencies_are_sources e w'"
  unfolding dependencies_are_sources_def by blast

lemma on_test_run_dependencies [simp]:
  "testDependencies (on_test_run e rs fs w) = testDependencies w"
proof -
  have "testDependencies (fold (\<lambda>f. pruneFailures (relative e f)) fs w) = testDependencies w"
    by (rule fold_invariant [where P = "\<lambda>w'. testDependencies w' = testDependencies w"]) simp_all
  then show ?thesis by (simp add: on_test_run_def Let_def)
qed

lemma on_error_dependencies [simp]:
  "testDependencies (on_error rs f w) = testDependencies w"
  unfolding on_error_def
  by (rule fold_invariant [where P = "\<lambda>w'. testDependencies w' = testDependencies w"]) simp_all

lemma dependencies_are_sources_step:
  assumes a: "dependencies_are_sources e w"
  shows "dependencies_are_sources e (step e i w)"
proof (cases i)
  case (TimerCallback t)
  have "set (testDependencies (runAfterChanges e w)) \<subseteq> set (testDependencies w)"
    by (auto simp add: runAfterChanges_trackers cleaned_dependencies)
  then have "dependencies_are_sources e (runAfterChanges e w)"
    using a by (rule dependencies_are_sources_cong)
  then show ?thesis
    using a by (simp add: TimerCallback timerCallback_def dependencies_are_sources_def)
next
  case (Dependencies rs f deps)
  show ?thesis
    unfolding Dependencies step.simps on_dependencies_def Let_def
    using a by (rule fold_invariant) (simp add: dependencies_are_sources_update)
qed (insert a, simp_all add: dependencies_are_sources_def on_all_def on_stats_def on_test_def
      run_fulfilled_def Let_def rerunAll_def)

lemma dependencies_are_sources_Watcher: "dependencies_are_sources e (Watcher e)"
  by (simp add: Watcher_def rerunAll_def dependencies_are_sources_def blank_def)

lemma dependencies_are_sources_reachable:
  "dependencies_are_sources e (exec e inputs (Watcher e))"
  using dependencies_are_sources_Watcher dependencies_are_sources_step by (rule exec_invariant)

lemma not_source_untraced:
  assumes "dependencies_are_sources e w" and "\<not> isSource e p"
  shows "tracedTests (testDependencies w) p = []"
  using assms unfolding dependencies_are_sources_def tracedTests_def contains_def
  by (auto simp: filter_empty_conv)

text \<open>
  C6 as amended. A dirty path that is neither a test nor a source is treated as a
  changed source: no test's recorded dependencies contain it, so the decision cycle
  calls \<^verbatim>\<open>this.run()\<close> without a file list and the API runs the configured \<open>files\<close>.
\<close>

theorem unclassified_path_full_run:
  assumes "\<not> isTest e p" and "\<not> isSource e p" and "p \<in> set (dirtyPaths w)"
    and "dependencies_are_sources e w"
  shows "runAfterChanges e w = run e None (cleaned e w)
       \<and> last (calls (runAfterChanges e w)) = ApiRun (files e) False
       \<and> runVector (runAfterChanges e w) = Suc (runVector w)"
proof -
  have src: "p \<in> set (dirtySources e w)" using assms(1,3) by (simp add: dirtySources_iff)
  have "tracedTests (testDependencies w) p = []"
    using assms(4,2) by (rule not_source_untraced)
  then have "tracedTests (testDependencies (cleaned e w)) p = []"
    by (simp add: cleaned_dependencies tracedTests_filter_subset)
  with src have "runAfterChanges e w = run e None (cleaned e w)"
    by (rule runAfterChanges_full_run)
  then show ?thesis by (simp add: run_last_call_None)
qed

section \<open>The debouncer\<close>

lemma exec_append: "exec e (xs @ ys) w = exec e ys (exec e xs w)"
  by (simp add: exec_def)

lemma exec_Cons: "exec e (x # xs) w = exec e xs (step e x w)"
  by (simp add: exec_def)

lemma exec_Nil: "exec e [] w = w"
  by (simp add: exec_def)

lemma on_all_armed:
  assumes "watched event" and "timer w = Some t"
  shows "on_all event p w =
           w\<lparr>dirtyStates := assign_property p event (dirtyStates w), again := True\<rparr>"
  using assms by (simp add: on_all_def watched_def debounce_def)

lemma on_all_idle:
  assumes "watched event" and "timer w = None"
  shows "on_all event p w =
           w\<lparr>dirtyStates := assign_property p event (dirtyStates w),
             timer := Some (timeouts w), timeouts := Suc (timeouts w)\<rparr>"
  using assms by (simp add: on_all_def watched_def debounce_def)

lemma burst_armed:
  assumes "\<forall>(event, p)\<in>set evs. watched event" and "timer w = Some t" and "evs \<noteq> []"
  shows "exec e (fs_inputs evs) w = w\<lparr>dirtyStates := record_events evs (dirtyStates w), again := True\<rparr>"
  using assms
proof (induction evs arbitrary: w)
  case Nil
  then show ?case by simp
next
  case (Cons ev evs)
  obtain event p where ev: "ev = (event, p)" by (cases ev)
  have w1: "on_all event p w =
      w\<lparr>dirtyStates := assign_property p event (dirtyStates w), again := True\<rparr>"
    using Cons.prems by (simp add: ev on_all_armed)
  show ?case
  proof (cases "evs = []")
    case True
    then show ?thesis by (simp add: ev fs_inputs_def exec_Cons exec_Nil w1 record_events_def)
  next
    case False
    have "exec e (fs_inputs evs) (on_all event p w)
            = (on_all event p w)\<lparr>dirtyStates :=
                 record_events evs (dirtyStates (on_all event p w)), again := True\<rparr>"
      using Cons.prems False by (intro Cons.IH) (simp_all add: w1)
    then show ?thesis
      by (simp add: ev fs_inputs_def exec_Cons w1 record_events_def)
  qed
qed

lemma burst_idle:
  assumes "\<forall>(event, p)\<in>set evs. watched event" and "timer w = None" and "evs \<noteq> []"
  shows "exec e (fs_inputs evs) w =
           w\<lparr>dirtyStates := record_events evs (dirtyStates w),
             timer := Some (timeouts w), timeouts := Suc (timeouts w),
             again := (again w \<or> 2 \<le> length evs)\<rparr>"
proof -
  obtain ev rest where evs: "evs = ev # rest" using assms(3) by (cases evs) auto
  obtain event p where ev: "ev = (event, p)" by (cases ev)
  have w1: "on_all event p w =
      w\<lparr>dirtyStates := assign_property p event (dirtyStates w),
        timer := Some (timeouts w), timeouts := Suc (timeouts w)\<rparr>"
    using assms by (simp add: evs ev on_all_idle)
  show ?thesis
  proof (cases "rest = []")
    case True
    then show ?thesis
      by (simp add: evs ev fs_inputs_def exec_Cons exec_Nil w1 record_events_def)
  next
    case False
    have "exec e (fs_inputs rest) (on_all event p w)
            = (on_all event p w)\<lparr>dirtyStates :=
                 record_events rest (dirtyStates (on_all event p w)), again := True\<rparr>"
      using assms False by (intro burst_armed [where t = "timeouts w"]) (simp_all add: evs w1)
    moreover have "2 \<le> length evs" using False by (cases rest) (simp_all add: evs)
    ultimately show ?thesis
      by (simp add: evs ev fs_inputs_def exec_Cons w1 record_events_def)
  qed
qed

lemma record_events_keys:
  "fst ` set (record_events evs dirty) = fst ` set dirty \<union> (snd ` set evs - {''__proto__''})"
  unfolding record_events_def
proof (induction evs arbitrary: dirty)
  case Nil
  show ?case by simp
next
  case (Cons ev evs)
  obtain event p where ev: "ev = (event, p)" by (cases ev)
  have "fst ` set (fold (\<lambda>(event, p). assign_property p event) evs (assign_property p event dirty))
          = fst ` set (assign_property p event dirty) \<union> (snd ` set evs - {''__proto__''})"
    by (rule Cons.IH)
  then show ?case by (auto simp add: ev assign_property_keys)
qed

text \<open>
  C9. Let the debouncer be idle and let one or more add, change or unlink events arrive
  before the callback of the timeout runs. The events start no decision cycle. Once the
  callbacks of the timeouts the debouncer armed have run (the first timeout and, when
  it re-armed, the second), exactly one decision cycle has been added and the debouncer
  is idle again. The dirty states of that cycle are the assignments of all the events:
  its dirty paths are the paths dirty before together with the paths of all the events,
  but for the path \<^verbatim>\<open>__proto__\<close>, for which the assignment stores nothing.
\<close>

theorem debounce_coalesces:
  assumes burst: "evs \<noteq> []" and kinds: "\<forall>(event, p)\<in>set evs. watched event"
    and idle: "timer w = None"
  shows "decisions (exec e (fs_inputs evs) w) = decisions w
       \<and> decisions (exec e (fs_inputs evs
                      @ [TimerCallback (timeouts w), TimerCallback (Suc (timeouts w))]) w)
           = decisions w @ [record_events evs (dirtyStates w)]
       \<and> set (object_keys (record_events evs (dirtyStates w)))
           = set (dirtyPaths w) \<union> (snd ` set evs - {''__proto__''})
       \<and> (''__proto__'' \<notin> snd ` set evs \<longrightarrow>
            set (object_keys (record_events evs (dirtyStates w)))
              = set (dirtyPaths w) \<union> snd ` set evs)
       \<and> timer (exec e (fs_inputs evs
                      @ [TimerCallback (timeouts w), TimerCallback (Suc (timeouts w))]) w) = None"
proof -
  define w1 where "w1 = exec e (fs_inputs evs) w"
  have w1: "w1 = w\<lparr>dirtyStates := record_events evs (dirtyStates w),
                   timer := Some (timeouts w), timeouts := Suc (timeouts w),
                   again := (again w \<or> 2 \<le> length evs)\<rparr>"
    unfolding w1_def using kinds idle burst by (rule burst_idle)
  have fields: "decisions w1 = decisions w" "timer w1 = Some (timeouts w)"
      "timeouts w1 = Suc (timeouts w)" "dirtyStates w1 = record_events evs (dirtyStates w)"
      "again w1 = (again w \<or> 2 \<le> length evs)"
    by (simp_all add: w1)
  define w3 where "w3 = timerCallback e (Suc (timeouts w)) (timerCallback e (timeouts w) w1)"
  have final: "exec e (fs_inputs evs @ [TimerCallback (timeouts w), TimerCallback (Suc (timeouts w))]) w = w3"
    by (simp add: exec_append exec_Cons exec_Nil w1_def w3_def)
  have w3: "decisions w3 = decisions w @ [record_events evs (dirtyStates w)] \<and> timer w3 = None"
  proof (cases "again w1")
    case True
    have "timerCallback e (timeouts w) w1
            = w1\<lparr>timer := Some (Suc (timeouts w)), again := False, timeouts := Suc (Suc (timeouts w))\<rparr>"
      using True by (simp add: timerCallback_def debounce_def fields)
    then show ?thesis
      by (simp add: w3_def timerCallback_def fields)
  next
    case False
    have "timerCallback e (timeouts w) w1 = (runAfterChanges e w1)\<lparr>timer := None, again := False\<rparr>"
      using False by (simp add: timerCallback_def fields)
    then show ?thesis
      by (simp add: w3_def timerCallback_def fields)
  qed
  have keys: "set (object_keys (record_events evs (dirtyStates w)))
           = set (dirtyPaths w) \<union> (snd ` set evs - {''__proto__''})"
    by (simp add: record_events_keys dirtyPaths_def)
  then have all_keys: "''__proto__'' \<notin> snd ` set evs \<longrightarrow>
            set (object_keys (record_events evs (dirtyStates w)))
              = set (dirtyPaths w) \<union> snd ` set evs"
    by auto
  show ?thesis
    using w3 fields(1) keys all_keys
    unfolding final w1_def [symmetric] by blast
qed

section \<open>Failures of earlier runs\<close>

lemma fold_pruneFailures:
  "fold (\<lambda>f. pruneFailures (relative e f)) fs w
     = w\<lparr>filesWithFailures :=
           filter (\<lambda>state. st_file state \<notin> set (map (relative e) fs)) (filesWithFailures w)\<rparr>"
proof (induction fs arbitrary: w)
  case Nil
  show ?case by simp
next
  case (Cons f fs)
  have "fold (\<lambda>f. pruneFailures (relative e f)) (f # fs) w
          = fold (\<lambda>f. pruneFailures (relative e f)) fs (pruneFailures (relative e f) w)"
    by simp
  also have "\<dots> = (pruneFailures (relative e f) w)\<lparr>filesWithFailures :=
           filter (\<lambda>state. st_file state \<notin> set (map (relative e) fs))
             (filesWithFailures (pruneFailures (relative e f) w))\<rparr>"
    by (rule Cons.IH)
  also have "\<dots> = w\<lparr>filesWithFailures :=
           filter (\<lambda>state. st_file state \<notin> set (map (relative e) (f # fs))) (filesWithFailures w)\<rparr>"
    by (simp add: pruneFailures_def conj_commute)
  finally show ?case .
qed

lemma on_test_run_eq:
  "on_test_run e rs fs w
     = w\<lparr>filesWithFailures :=
           filter (\<lambda>state. st_file state \<notin> set (map (relative e) fs)) (filesWithFailures w),
         listeners := listeners w @ [(rs, runVector w)]\<rparr>"
  by (simp add: on_test_run_def Let_def fold_pruneFailures)

lemma increment_count_absent:
  "f \<notin> set (map st_file states) \<Longrightarrow> increment_count f states = states"
  by (induction states) auto

lemma countFailure_failures:
  "filesWithFailures (countFailure f v w) =
     (if f \<in> set (map st_file (filesWithFailures w)) then increment_count f (filesWithFailures w)
      else filesWithFailures w @ [\<lparr>st_file = f, st_vector = v, st_count = 1\<rparr>])"
  by (auto simp add: countFailure_def Let_def list_ex_iff increment_count_absent)

lemma run_fulfilled_frame [simp]:
  "runVector (run_fulfilled v st w) = runVector w"
  "testDependencies (run_fulfilled v st w) = testDependencies w"
  "filesWithExclusiveTests (run_fulfilled v st w) = filesWithExclusiveTests w"
  "filesWithFailures (run_fulfilled v st w) = filesWithFailures w"
  "dirtyStates (run_fulfilled v st w) = dirtyStates w"
  "timer (run_fulfilled v st w) = timer w"
  "again (run_fulfilled v st w) = again w"
  "timeouts (run_fulfilled v st w) = timeouts w"
  "listeners (run_fulfilled v st w) = listeners w"
  "pending (run_fulfilled v st w) = pending w"
  "decisions (run_fulfilled v st w) = decisions w"
  "calls (run_fulfilled v st w)
     = calls w @ [LoggerFinish (st\<lparr>previousFailCount := sumPreviousFailures v w\<rparr>)]"
  by (simp_all add: run_fulfilled_def Let_def sumPreviousFailures_def)

lemma Watcher_fields [simp]:
  "runVector (Watcher e) = 1"
  "filesWithFailures (Watcher e) = []"
  "listeners (Watcher e) = []"
  "pending (Watcher e) = [1]"
  by (simp_all add: Watcher_def rerunAll_def blank_def)

lemma countFailure_listeners_fold:
  "listeners (fold (\<lambda>l. countFailure f (snd l)) ls w) = listeners w"
  "runVector (fold (\<lambda>l. countFailure f (snd l)) ls w) = runVector w"
  "pending (fold (\<lambda>l. countFailure f (snd l)) ls w) = pending w"
  by (induction ls arbitrary: w) simp_all

text \<open>
  C5. \<open>sumPreviousFailures\<close> is the sum of the counts of the records whose run vector is
  below its argument. If the first run (the one the constructor starts) reports one
  failed test of \<open>X\<close>, and the second run is requested for \<open>Y\<close> alone, with \<open>X\<close> and \<open>Y\<close>
  different files and the two run statuses different objects, then the status of the
  second run is handed to the logger with \<open>previousFailCount = 1\<close>, whether the test of
  \<open>Y\<close> fails or not.
\<close>

theorem sumPreviousFailures_stale:
  "sumPreviousFailures g w = sumFailuresBefore g (filesWithFailures w)
   \<and> (X \<noteq> Y \<and> relative e Y \<noteq> X \<and> r1 \<noteq> r2 \<longrightarrow>
        last (calls (exec e [TestRun r2 [Y], TestEvent r2 Y b, RunFulfilled 2 st2]
                (run e (Some [Y])
                   (exec e [TestRun r1 fs, TestEvent r1 X True, RunFulfilled 1 st1] (Watcher e)))))
          = LoggerFinish (st2\<lparr>previousFailCount := 1\<rparr>))"
proof -
  have scenario: "last (calls (exec e [TestRun r2 [Y], TestEvent r2 Y b, RunFulfilled 2 st2]
                (run e (Some [Y])
                   (exec e [TestRun r1 fs, TestEvent r1 X True, RunFulfilled 1 st1] (Watcher e)))))
          = LoggerFinish (st2\<lparr>previousFailCount := 1\<rparr>)"
    if h: "X \<noteq> Y \<and> relative e Y \<noteq> X \<and> r1 \<noteq> r2"
  proof -
    define wb where "wb = on_test_run e r1 fs (Watcher e)"
    have wb: "runVector wb = 1" "filesWithFailures wb = []" "listeners wb = [(r1, 1)]" "pending wb = [1]"
      by (simp_all add: wb_def on_test_run_eq)
    define wc where "wc = on_test r1 X True wb"
    have wc_eq: "wc = countFailure X 1 wb"
      by (simp add: wc_def on_test_def on_error_def listeners_on_def wb)
    have wc: "runVector wc = 1" "filesWithFailures wc = [\<lparr>st_file = X, st_vector = 1, st_count = 1\<rparr>]"
        "listeners wc = [(r1, 1)]" "pending wc = [1]"
      by (simp_all add: wc_eq countFailure_failures wb)
    define wd where "wd = step e (RunFulfilled 1 st1) wc"
    have wd: "runVector wd = 1" "filesWithFailures wd = [\<lparr>st_file = X, st_vector = 1, st_count = 1\<rparr>]"
        "listeners wd = [(r1, 1)]" "pending wd = []"
      by (simp_all add: wd_def wc)
    define we where "we = run e (Some [Y]) wd"
    have we: "runVector we = 2" "filesWithFailures we = [\<lparr>st_file = X, st_vector = 1, st_count = 1\<rparr>]"
        "listeners we = [(r1, 1)]" "pending we = [2]"
      by (simp_all add: we_def wd)
    define wf where "wf = on_test_run e r2 [Y] we"
    from h have h': "X \<noteq> relative e Y" "Y \<noteq> X" "r2 \<noteq> r1" by auto
    have wf: "runVector wf = 2" "filesWithFailures wf = [\<lparr>st_file = X, st_vector = 1, st_count = 1\<rparr>]"
        "listeners wf = [(r1, 1), (r2, 2)]" "pending wf = [2]"
      using h h' by (simp_all add: wf_def on_test_run_eq we)
    define wg where "wg = on_test r2 Y b wf"
    have wg_eq: "wg = (if b then countFailure Y 2 wf else wf)"
      using h h' by (simp add: wg_def on_test_def on_error_def listeners_on_def wf)
    have wg: "pending wg = [2]" "sumPreviousFailures 2 wg = 1"
      using h h' by (simp_all add: wg_eq wf sumPreviousFailures_sum sumFailuresBefore_def
          countFailure_failures)
    have "exec e [TestRun r2 [Y], TestEvent r2 Y b, RunFulfilled 2 st2]
                (run e (Some [Y])
                   (exec e [TestRun r1 fs, TestEvent r1 X True, RunFulfilled 1 st1] (Watcher e)))
            = step e (RunFulfilled 2 st2) wg"
      by (simp only: exec_Cons exec_Nil step.simps wb_def wc_def wd_def we_def wf_def wg_def)
    moreover have "sumPreviousFailures 2 (wg\<lparr>pending := []\<rparr>) = sumPreviousFailures 2 wg"
      by (simp add: sumPreviousFailures_def)
    ultimately show ?thesis
      by (simp add: wg)
  qed
  show ?thesis
    using scenario by (simp add: sumPreviousFailures_sum)
qed

section \<open>The theorems at the example watchers\<close>

text \<open>
  The theorems above that carry hypotheses, applied to the example watchers. A source
  without traced tests changes (C2); \<^verbatim>\<open>lib/util.js\<close> changes, with and without a new
  \<^verbatim>\<open>test/b.js\<close> (C3); \<^verbatim>\<open>test/a.js\<close> is removed (C4); \<^verbatim>\<open>test/a.js\<close> fails in the first run
  and the second run is for \<^verbatim>\<open>test/b.js\<close> (C5); \<^verbatim>\<open>test/_helper.js\<close>, neither a test nor a
  source, changes together with \<^verbatim>\<open>test/b.js\<close> (C6); the failure record of \<^verbatim>\<open>test/a.js\<close> (C7);
  bursts of three events and of one event, one of them for the path \<^verbatim>\<open>__proto__\<close> (C9).
\<close>

theorem runAfterChanges_untraceable_witness:
  "last (calls (runAfterChanges example_env
           (exec example_env [FsEvent Change ''lib/util.js''] (Watcher example_env))))
     = ApiRun [''test/*.js''] False
   \<and> runVector (runAfterChanges example_env
           (exec example_env [FsEvent Change ''lib/util.js''] (Watcher example_env))) = 2"
  using runAfterChanges_untraceable [of "''lib/util.js''" example_env
      "exec example_env [FsEvent Change ''lib/util.js''] (Watcher example_env)"]
  by (simp add: decision_simps exec_def on_all_def Watcher_def rerunAll_def blank_def
      run_last_call_None)

theorem runAfterChanges_affected_witness:
  "affectedTests example_env
      (exec example_env [FsEvent Change ''lib/util.js'', FsEvent Add ''test/b.js''] after_first_run)
     = [''test/b.js'', ''test/a.js'']
   \<and> last (calls (runAfterChanges example_env
      (exec example_env [FsEvent Change ''lib/util.js'', FsEvent Add ''test/b.js''] after_first_run)))
     = ApiRun [''test/b.js'', ''test/a.js''] False
   \<and> last (calls (runAfterChanges example_env
      (exec example_env [FsEvent Change ''lib/util.js''] after_first_run)))
     = ApiRun [''test/a.js''] False
   \<and> runAfterChanges example_env
      (exec example_env [FsEvent Change ''lib/util.js''] after_exclusive_run)
     = run example_env (Some [''test/a.js''])
         (cleaned example_env
            (exec example_env [FsEvent Change ''lib/util.js''] after_exclusive_run))
   \<and> last (calls (runAfterChanges example_env
      (exec example_env [FsEvent Change ''lib/util.js''] after_exclusive_run)))
     = ApiRun [''test/b.js'', ''test/a.js''] True"
  using runAfterChanges_affected [of example_env
      "exec example_env [FsEvent Change ''lib/util.js'', FsEvent Add ''test/b.js''] after_first_run"
      "''lib/util.js''" Change "''test/a.js''"]
    runAfterChanges_affected [of example_env
      "exec example_env [FsEvent Change ''lib/util.js''] after_first_run"
      "''lib/util.js''" Change "''test/a.js''"]
    runAfterChanges_affected [of example_env
      "exec example_env [FsEvent Change ''lib/util.js''] after_exclusive_run"
      "''lib/util.js''" Change "''test/a.js''"]
  by (simp add: decision_simps exec_def on_all_def after_first_run_eq after_exclusive_run_eq
      debounce_def run_last_call_Some)

text \<open>
  C3 as stated fails. In a watcher the constructor's run leaves with \<^verbatim>\<open>test/b.js\<close> holding an
  exclusive test, \<^verbatim>\<open>lib/util.js\<close> is a dependency of \<^verbatim>\<open>test/a.js\<close> only and is the only dirty
  path. The affected tests are \<^verbatim>\<open>test/a.js\<close> alone, yet the run the cycle starts is of
  \<^verbatim>\<open>test/b.js\<close> and \<^verbatim>\<open>test/a.js\<close>, with \<open>runOnlyExclusive\<close>.
\<close>

theorem runAfterChanges_affected_not_exact:
  "dirtySources example_env
      (exec example_env [FsEvent Change ''lib/util.js''] after_exclusive_run) = [''lib/util.js'']
   \<and> tracedTests
        (testDependencies (exec example_env [FsEvent Change ''lib/util.js''] after_exclusive_run))
        ''lib/util.js'' = [''test/a.js'']
   \<and> affectedTests example_env
        (exec example_env [FsEvent Change ''lib/util.js''] after_exclusive_run) = [''test/a.js'']
   \<and> last (calls (runAfterChanges example_env
        (exec example_env [FsEvent Change ''lib/util.js''] after_exclusive_run)))
       = ApiRun [''test/b.js'', ''test/a.js''] True
   \<and> last (calls (runAfterChanges example_env
        (exec example_env [FsEvent Change ''lib/util.js''] after_exclusive_run)))
       \<noteq> ApiRun [''test/a.js''] False"
  by (simp add: runAfterChanges_eq decision_simps exec_def on_all_def after_exclusive_run_eq
      debounce_def run_last_call_Some)

theorem runAfterChanges_removed_witness:
  "''test/a.js'' \<in> set (map dep_file (testDependencies after_failed_run))
   \<and> ''test/a.js'' \<in> set (filesWithExclusiveTests after_failed_run)
   \<and> ''test/a.js'' \<in> set (map st_file (filesWithFailures after_failed_run))
   \<and> ''test/a.js'' \<notin> set (map dep_file (testDependencies (runAfterChanges example_env
         (exec example_env [FsEvent Unlink ''test/a.js''] after_failed_run))))
   \<and> ''test/a.js'' \<notin> set (filesWithExclusiveTests (runAfterChanges example_env
         (exec example_env [FsEvent Unlink ''test/a.js''] after_failed_run)))
   \<and> ''test/a.js'' \<notin> set (map st_file (filesWithFailures (runAfterChanges example_env
         (exec example_env [FsEvent Unlink ''test/a.js''] after_failed_run))))
   \<and> calls (runAfterChanges example_env
         (exec example_env [FsEvent Unlink ''test/a.js''] after_failed_run))
       = calls after_failed_run
   \<and> runVector (runAfterChanges example_env
         (exec example_env [FsEvent Unlink ''test/a.js''] after_failed_run)) = 1"
  using runAfterChanges_removed [of
      "exec example_env [FsEvent Unlink ''test/a.js''] after_failed_run" example_env "''test/a.js''"]
  by (simp add: decision_simps exec_def on_all_def after_failed_run_eq debounce_def)

theorem sumPreviousFailures_stale_witness:
  "last (calls (exec example_env
            [TestRun 1 [''test/b.js''], TestEvent 1 ''test/b.js'' True,
             RunFulfilled 2 \<lparr>failCount = 1, rejectionCount = 0, exceptionCount = 0,
                              previousFailCount = 0\<rparr>]
            (run example_env (Some [''test/b.js''])
               (exec example_env
                  [TestRun 0 [''test/a.js'', ''test/b.js''], TestEvent 0 ''test/a.js'' True,
                   RunFulfilled 1 \<lparr>failCount = 1, rejectionCount = 0, exceptionCount = 0,
                                    previousFailCount = 0\<rparr>]
                  (Watcher example_env)))))
     = LoggerFinish \<lparr>failCount = 1, rejectionCount = 0, exceptionCount = 0, previousFailCount = 1\<rparr>"
  using sumPreviousFailures_stale [of 2 blank "''test/a.js''" "''test/b.js''" example_env 0 1 True
      "\<lparr>failCount = 1, rejectionCount = 0, exceptionCount = 0, previousFailCount = 0\<rparr>"
      "[''test/a.js'', ''test/b.js'']"
      "\<lparr>failCount = 1, rejectionCount = 0, exceptionCount = 0, previousFailCount = 0\<rparr>"]
  by simp

theorem unclassified_path_full_run_witness:
  "last (calls (runAfterChanges example_env
      (exec example_env [FsEvent Change ''test/b.js'', FsEvent Change ''test/_helper.js'']
         after_first_run)))
     = ApiRun [''test/*.js''] False
   \<and> runVector (runAfterChanges example_env
      (exec example_env [FsEvent Change ''test/b.js'', FsEvent Change ''test/_helper.js'']
         after_first_run)) = 2"
  using unclassified_path_full_run [of example_env "''test/_helper.js''"
      "exec example_env [FsEvent Change ''test/b.js'', FsEvent Change ''test/_helper.js'']
         after_first_run"]
  by (simp add: decision_simps exec_def on_all_def after_first_run_eq debounce_def
      dependencies_are_sources_def run_last_call_None)

text \<open>
  C6 as stated fails. \<^verbatim>\<open>test/_helper.js\<close> is neither a test nor a source. With only
  \<^verbatim>\<open>test/b.js\<close> dirty the cycle runs \<^verbatim>\<open>test/b.js\<close>; with \<^verbatim>\<open>test/_helper.js\<close> dirty as well it
  runs all the configured files. With no dirty path the cycle starts no run; with only
  \<^verbatim>\<open>test/_helper.js\<close> dirty it starts a run of all the configured files.
\<close>

theorem unclassified_path_not_ignored:
  "\<not> isTest example_env ''test/_helper.js'' \<and> \<not> isSource example_env ''test/_helper.js''
   \<and> last (calls (runAfterChanges example_env
          (exec example_env [FsEvent Change ''test/b.js''] after_first_run)))
       = ApiRun [''test/b.js''] False
   \<and> last (calls (runAfterChanges example_env
          (exec example_env [FsEvent Change ''test/b.js'', FsEvent Change ''test/_helper.js'']
             after_first_run)))
       = ApiRun [''test/*.js''] False
   \<and> runVector (runAfterChanges example_env after_first_run) = runVector after_first_run
   \<and> calls (runAfterChanges example_env after_first_run) = calls after_first_run
   \<and> runVector (runAfterChanges example_env
          (exec example_env [FsEvent Change ''test/_helper.js''] after_first_run))
       = Suc (runVector after_first_run)
   \<and> last (calls (runAfterChanges example_env
          (exec example_env [FsEvent Change ''test/_helper.js''] after_first_run)))
       = ApiRun [''test/*.js''] False"
  by (simp add: runAfterChanges_eq decision_simps exec_def on_all_def after_first_run_eq
      debounce_def run_last_call_None run_last_call_Some)

theorem failure_generations_bounded_witness:
  "filesWithFailures after_failed_run = [\<lparr>st_file = ''test/a.js'', st_vector = 1, st_count = 1\<rparr>]
   \<and> st_vector (hd (filesWithFailures after_failed_run)) \<le> runVector after_failed_run
   \<and> runVector after_failed_run \<le> runVector (step example_env RerunContinuation after_failed_run)
   \<and> generations_bounded (step example_env RerunContinuation after_failed_run)
   \<and> generations_bounded (run example_env None after_failed_run)
   \<and> generations_bounded (pruneFailures ''test/a.js'' after_failed_run)
   \<and> generations_bounded (countFailure ''test/a.js'' 1 after_failed_run)"
  using failure_generations_bounded [of example_env
      "[TestRun 0 [''test/a.js'', ''test/b.js''],
        Dependencies 0 ''test/a.js'' [''lib/util.js''],
        Stats ''test/a.js'' True,
        TestEvent 0 ''test/a.js'' True,
        RunFulfilled 1 \<lparr>failCount = 1, rejectionCount = 0, exceptionCount = 0,
                         previousFailCount = 0\<rparr>]"
      after_failed_run RerunContinuation None "''test/a.js''" 1]
  unfolding after_failed_run_def [symmetric]
  by (simp add: after_failed_run_eq generations_bounded_def)

theorem debounce_coalesces_witness:
  "decisions (exec example_env
      (fs_inputs [(Change, ''lib/util.js''), (Change, ''lib/util.js''), (Add, ''test/b.js'')]
         @ [TimerCallback 0, TimerCallback 1])
      after_first_run)
     = [[(''lib/util.js'', Change), (''test/b.js'', Add)]]
   \<and> decisions (exec example_env
      (fs_inputs [(Change, ''lib/util.js''), (Change, ''lib/util.js''), (Add, ''test/b.js'')])
      after_first_run) = []
   \<and> timer (exec example_env
      (fs_inputs [(Change, ''lib/util.js''), (Change, ''lib/util.js''), (Add, ''test/b.js'')]
         @ [TimerCallback 0, TimerCallback 1])
      after_first_run) = None
   \<and> decisions (exec example_env (fs_inputs [(Unlink, ''test/a.js'')] @ [TimerCallback 0, TimerCallback 1])
      after_first_run)
     = [[(''test/a.js'', Unlink)]]
   \<and> decisions (exec example_env (fs_inputs [(Change, ''__proto__'')] @ [TimerCallback 0, TimerCallback 1])
      after_first_run)
     = [[]]"
  using debounce_coalesces [of "[(Change, ''lib/util.js''), (Change, ''lib/util.js''), (Add, ''test/b.js'')]"
      after_first_run example_env]
    debounce_coalesces [of "[(Unlink, ''test/a.js'')]" after_first_run example_env]
    debounce_coalesces [of "[(Change, ''__proto__'')]" after_first_run example_env]
  by (simp add: watched_def record_events_def assign_property_def after_first_run_eq)

end
